theory Spec2Isabelle
  imports Main "HOL-Library.Sublist"
begin

section \<open>Strings and paths as the toolchain uses them\<close>

text \<open>
  The GCC toolchain of Beremiz (\<^verbatim>\<open>targets/toolchain_gcc.py\<close>) works on Python text.
  Text is modelled as \<^typ>\<open>string\<close>; a character is one code point below 256.
\<close>

definition dquote :: char where
  "dquote = CHR 0x22"

text \<open>
  The characters that Python counts as white space (\<^verbatim>\<open>str.isspace\<close>, the class
  \<^verbatim>\<open>\s\<close> of a text pattern and the characters \<^verbatim>\<open>str.strip\<close> removes): tab to carriage
  return, the four separators 0x1C to 0x1F, the blank, NEL and the no-break space.
\<close>

definition py_isspace :: "char \<Rightarrow> bool" where
  "py_isspace c = (c \<in> {CHR 0x09, CHR 0x0A, CHR 0x0B, CHR 0x0C, CHR 0x0D,
                        CHR 0x1C, CHR 0x1D, CHR 0x1E, CHR 0x1F, CHR 0x20, CHR 0x85, CHR 0xA0})"

text \<open>The line boundaries of \<^verbatim>\<open>str.splitlines\<close>.\<close>

definition py_linebreak :: "char \<Rightarrow> bool" where
  "py_linebreak c = (c \<in> {CHR 0x0A, CHR 0x0B, CHR 0x0C, CHR 0x0D,
                          CHR 0x1C, CHR 0x1D, CHR 0x1E, CHR 0x85})"

text \<open>
  \<^verbatim>\<open>str.splitlines()\<close>: the text is cut at every line boundary, a carriage return
  followed by a line feed is one boundary, and no empty line follows the last boundary.
  The first argument is the current line, reversed.
\<close>

fun splitlines_from :: "string \<Rightarrow> string \<Rightarrow> string list" where
  "splitlines_from cur [] = (if cur = [] then [] else [rev cur])"
| "splitlines_from cur (c # cs) =
     (if c = CHR 0x0D \<and> cs \<noteq> [] \<and> hd cs = CHR 0x0A then rev cur # splitlines_from [] (tl cs)
      else if py_linebreak c then rev cur # splitlines_from [] cs
      else splitlines_from (c # cur) cs)"

definition splitlines :: "string \<Rightarrow> string list" where
  "splitlines s = splitlines_from [] s"

text \<open>\<^verbatim>\<open>str.strip()\<close>, \<^verbatim>\<open>sep.join(xs)\<close>, \<^verbatim>\<open>s.endswith(t)\<close> and \<^verbatim>\<open>t in s\<close>.\<close>

definition strip :: "string \<Rightarrow> string" where
  "strip s = rev (dropWhile py_isspace (rev (dropWhile py_isspace s)))"

fun join :: "string \<Rightarrow> string list \<Rightarrow> string" where
  "join sep [] = []"
| "join sep [x] = x"
| "join sep (x # y # ys) = x @ sep @ join sep (y # ys)"

definition endswith :: "string \<Rightarrow> string \<Rightarrow> bool" where
  "endswith s t = suffix t s"

fun contains :: "string \<Rightarrow> string \<Rightarrow> bool" where
  "contains pat [] = (pat = [])"
| "contains pat (c # cs) = (prefix pat (c # cs) \<or> contains pat cs)"

text \<open>
  \<^verbatim>\<open>s.replace(old, new)\<close> for a non-empty \<^verbatim>\<open>old\<close>: the text is read from the left,
  every occurrence found is replaced and reading goes on behind it. The counter is the
  number of characters of the occurrence still to be skipped.
\<close>

fun replace_from :: "string \<Rightarrow> string \<Rightarrow> nat \<Rightarrow> string \<Rightarrow> string" where
  "replace_from old new k [] = []"
| "replace_from old new (Suc k) (c # cs) = replace_from old new k cs"
| "replace_from old new 0 (c # cs) =
     (if prefix old (c # cs) then new @ replace_from old new (length old - 1) cs
      else c # replace_from old new 0 cs)"

definition str_replace :: "string \<Rightarrow> string \<Rightarrow> string \<Rightarrow> string" where
  "str_replace old new s = replace_from old new 0 s"

text \<open>
  \<^verbatim>\<open>os.path.join(a, b)\<close>, \<^verbatim>\<open>os.path.basename(p)\<close> and the first component of
  \<^verbatim>\<open>os.path.splitext(p)\<close> on a POSIX system. The extension starts at the last dot of
  the file name, unless only dots stand before it.
\<close>

definition path_join :: "string \<Rightarrow> string \<Rightarrow> string" where
  "path_join a b =
     (if b \<noteq> [] \<and> hd b = CHR ''/'' then b
      else if a = [] \<or> last a = CHR ''/'' then a @ b
      else a @ ''/'' @ b)"

definition basename :: "string \<Rightarrow> string" where
  "basename p = rev (takeWhile (\<lambda>c. c \<noteq> CHR ''/'') (rev p))"

definition splitext_root :: "string \<Rightarrow> string" where
  "splitext_root p =
     (let fname = basename p;
          dir = take (length p - length fname) p;
          stem = rev (tl (dropWhile (\<lambda>c. c \<noteq> CHR ''.'') (rev fname)))
      in if CHR ''.'' \<in> set fname \<and> (\<exists>c \<in> set stem. c \<noteq> CHR ''.'') then dir @ stem else p)"

section \<open>The include scanner\<close>

text \<open>
  \<^verbatim>\<open>includes_re.match(l)\<close> with the pattern
  \<^verbatim>\<open>\s*#include\s*["<]([^">]*)[">].*\<close>, anchored at the start of the line. The result
  is the group, or \<open>None\<close> when the line does not match. No part of the pattern can
  match in two ways: neither \<^verbatim>\<open>#\<close> nor an opening delimiter is white space, and the
  name stops at the first quote or closing bracket.
\<close>

definition name_char :: "char \<Rightarrow> bool" where
  "name_char c = (c \<noteq> dquote \<and> c \<noteq> CHR ''>'')"

definition includes_re_match :: "string \<Rightarrow> string option" where
  "includes_re_match l =
     (let r1 = dropWhile py_isspace l in
      if prefix ''#include'' r1 then
        (case dropWhile py_isspace (drop 8 r1) of
           [] \<Rightarrow> None
         | d # r3 \<Rightarrow>
             if d = dquote \<or> d = CHR ''<'' then
               (if dropWhile name_char r3 = [] then None else Some (takeWhile name_char r3))
             else None)
      else None)"

section \<open>The file system and the platform\<close>

text \<open>
  The file system maps the text of a path to what is there. Two spellings of one path
  are two keys: the paths the toolchain uses are the ones it forms itself with
  \<^verbatim>\<open>os.path.join\<close>.
\<close>

datatype fsnode = RegularFile string | Directory

type_synonym filesystem = "string \<Rightarrow> fsnode option"

definition path_exists :: "filesystem \<Rightarrow> string \<Rightarrow> bool" where
  "path_exists fs p = (fs p \<noteq> None)"

text \<open>
  \<^verbatim>\<open>append_cfile_deps(src, deps)\<close>: every line of \<open>src\<close> that matches the pattern and
  names an existing path under the build path is appended to \<open>deps\<close>.
\<close>

fun append_cfile_deps_lines :: "string \<Rightarrow> filesystem \<Rightarrow> string list \<Rightarrow> string list \<Rightarrow> string list" where
  "append_cfile_deps_lines buildpath fs [] deps = deps"
| "append_cfile_deps_lines buildpath fs (l # ls) deps =
     (case includes_re_match l of
        None \<Rightarrow> append_cfile_deps_lines buildpath fs ls deps
      | Some depfn \<Rightarrow>
          if path_exists fs (path_join buildpath depfn)
          then append_cfile_deps_lines buildpath fs ls (deps @ [depfn])
          else append_cfile_deps_lines buildpath fs ls deps)"

definition append_cfile_deps :: "string \<Rightarrow> filesystem \<Rightarrow> string \<Rightarrow> string list \<Rightarrow> string list" where
  "append_cfile_deps buildpath fs src deps = append_cfile_deps_lines buildpath fs (splitlines src) deps"

section \<open>Collaborators\<close>

text \<open>
  What the toolchain takes from outside: the process environment, the digest of
  \<^verbatim>\<open>hashlib.md5\<close>, \<^verbatim>\<open>shlex.split\<close> (\<open>None\<close> when it raises \<^verbatim>\<open>ValueError\<close>),
  \<^verbatim>\<open>subprocess.check_output\<close> and the process runner \<^verbatim>\<open>ProcessLogger(...).spin()\<close>, which
  returns an exit status and may change any file. The output of \<^verbatim>\<open>check_output\<close> is taken
  as the text that \<^verbatim>\<open>decode\<close> makes of it. The logger is left out: writing a log line
  changes neither the state nor the control flow.
\<close>

datatype exn = KeyError | IOError | RecursionError | ValueError | OSError

datatype 'a outcome = Returned 'a | Raised exn

datatype query_result = Output string | CalledProcessError | FileNotFoundError | OtherFailure

datatype event = CheckOutput "string list" | Spin "string list"

record platform =
  environ :: "string \<rightharpoonup> string"
  md5_hexdigest :: "string \<Rightarrow> string"
  shlex_split :: "string \<Rightarrow> string list option"
  check_output :: "string list \<Rightarrow> query_result"
  spin :: "string list \<Rightarrow> filesystem \<Rightarrow> int \<times> filesystem"

text \<open>
  \<^verbatim>\<open>compute_file_md5\<close> reads the file in chunks and digests them in order, which is the
  digest of the content. Opening a directory or a missing file raises.
\<close>

definition compute_file_md5 :: "platform \<Rightarrow> filesystem \<Rightarrow> string \<Rightarrow> string outcome" where
  "compute_file_md5 pf fs filetocheck =
     (case fs filetocheck of
        Some (RegularFile content) \<Rightarrow> Returned (md5_hexdigest pf content)
      | _ \<Rightarrow> Raised IOError)"

text \<open>
  The controller \<^verbatim>\<open>CTRInstance\<close> with its target description, and \<^verbatim>\<open>extension\<close>, the
  attribute that a target specific subclass of the toolchain provides.
\<close>

record controller =
  target_CFLAGS :: string
  target_LDFLAGS :: string
  target_Compiler :: string
  target_Linker :: string
  LDFLAGS :: "string list"
  LocationCFilesAndCFLAGS :: "(int list \<times> (string \<times> string) list \<times> bool) list"
  ProjectName :: string
  BuildPath :: string
  extension :: string

section \<open>The toolchain\<close>

type_synonym cache = "string \<rightharpoonup> (string \<times> string list)"

record toolchain =
  buildpath :: string
  bin :: string
  bin_path :: string
  md5key :: "string option"
  srcmd5 :: cache

definition getBuilderCFLAGS :: "platform \<Rightarrow> controller \<Rightarrow> string list" where
  "getBuilderCFLAGS pf ctr =
     [target_CFLAGS ctr]
     @ (case environ pf ''CFLAGS'' of Some v \<Rightarrow> [v] | None \<Rightarrow> [])
     @ (case environ pf ''SYSROOT'' of Some v \<Rightarrow> [''--sysroot='' @ v] | None \<Rightarrow> [])"

definition getBuilderLDFLAGS :: "platform \<Rightarrow> controller \<Rightarrow> string list" where
  "getBuilderLDFLAGS pf ctr =
     (LDFLAGS ctr @ [target_LDFLAGS ctr])
     @ (case environ pf ''LDLAGS'' of Some v \<Rightarrow> [v] | None \<Rightarrow> [])
     @ (case environ pf ''SYSROOT'' of Some v \<Rightarrow> [''--sysroot='' @ v] | None \<Rightarrow> [])"

definition getCompiler :: "controller \<Rightarrow> string" where
  "getCompiler ctr = target_Compiler ctr"

definition getLinker :: "controller \<Rightarrow> string" where
  "getLinker ctr = target_Linker ctr"

definition GetMD5FileName :: "toolchain \<Rightarrow> string" where
  "GetMD5FileName st = path_join (buildpath st) ''lastbuildPLC.md5''"

definition ResetBinaryMD5 :: "filesystem \<Rightarrow> toolchain \<Rightarrow> filesystem \<times> toolchain" where
  "ResetBinaryMD5 fs st =
     ((case fs (GetMD5FileName st) of
         Some (RegularFile content) \<Rightarrow> fs((GetMD5FileName st) := None)
       | _ \<Rightarrow> fs),
      st\<lparr>md5key := None\<rparr>)"

text \<open>
  \<^verbatim>\<open>GetBinaryMD5\<close> returns the fingerprint in memory if there is one. Otherwise it reads
  the fingerprint file; the model returns the content as it is, which is what text mode
  gives for the hexadecimal digest that \<^verbatim>\<open>build\<close> writes there.
\<close>

definition GetBinaryMD5 :: "filesystem \<Rightarrow> toolchain \<Rightarrow> string option" where
  "GetBinaryMD5 fs st =
     (case md5key st of
        Some key \<Rightarrow> Some key
      | None \<Rightarrow>
          (case fs (GetMD5FileName st) of
             Some (RegularFile content) \<Rightarrow> Some content
           | _ \<Rightarrow> None))"

text \<open>
  \<^verbatim>\<open>SetBuildPath\<close> resets the fingerprint and the cache when the path changes. The
  constructor sets the build path to \<^verbatim>\<open>None\<close> and calls it with the controller's path, so
  a new toolchain is the result of the reset.
\<close>

definition reset_for :: "controller \<Rightarrow> string \<Rightarrow> toolchain" where
  "reset_for ctr bp =
     \<lparr>buildpath = bp,
      bin = ProjectName ctr @ extension ctr,
      bin_path = path_join bp (ProjectName ctr @ extension ctr),
      md5key = None,
      srcmd5 = Map.empty\<rparr>"

definition SetBuildPath :: "controller \<Rightarrow> toolchain \<Rightarrow> string \<Rightarrow> toolchain" where
  "SetBuildPath ctr st bp = (if buildpath st \<noteq> bp then reset_for ctr bp else st)"

definition toolchain_init :: "controller \<Rightarrow> toolchain" where
  "toolchain_init ctr = reset_for ctr (BuildPath ctr)"

subsection \<open>The dependency and hash cache\<close>

text \<open>
  \<^verbatim>\<open>list(map(self.check_and_update_hash_and_deps, deps))\<close>: the dependencies are checked
  from left to right, each on the cache the one before left, and an exception ends the
  walk.
\<close>

primrec map_checks ::
  "(string \<Rightarrow> cache \<Rightarrow> bool outcome \<times> cache) \<Rightarrow> string list \<Rightarrow> cache \<Rightarrow> bool list outcome \<times> cache" where
  "map_checks f [] c = (Returned [], c)"
| "map_checks f (d # ds) c =
     (case f d c of
        (Raised e, c1) \<Rightarrow> (Raised e, c1)
      | (Returned r, c1) \<Rightarrow>
          (case map_checks f ds c1 of
             (Raised e, c2) \<Rightarrow> (Raised e, c2)
           | (Returned rs, c2) \<Rightarrow> (Returned (r # rs), c2)))"

text \<open>
  \<^verbatim>\<open>check_and_update_hash_and_deps(bn)\<close>. The source has no guard against circular
  dependencies; the first argument is the number of nested calls the interpreter still
  allows, and a call beyond it raises \<^verbatim>\<open>RecursionError\<close>. The local \<^verbatim>\<open>src\<close> is the path
  of the file, and it is this path that is handed to \<^verbatim>\<open>append_cfile_deps\<close>.
\<close>

fun check_and_update_hash_and_deps ::
  "platform \<Rightarrow> string \<Rightarrow> filesystem \<Rightarrow> nat \<Rightarrow> string \<Rightarrow> cache \<Rightarrow> bool outcome \<times> cache" where
  "check_and_update_hash_and_deps pf bp fs 0 bn c = (Raised RecursionError, c)"
| "check_and_update_hash_and_deps pf bp fs (Suc n) bn c =
     (let (oldhash, deps) = (case c bn of None \<Rightarrow> (None, []) | Some (h, ds) \<Rightarrow> (Some h, ds));
          src = path_join bp bn
      in if \<not> path_exists fs src then (Returned False, c)
         else
           (case compute_file_md5 pf fs src of
              Raised e \<Rightarrow> (Raised e, c)
            | Returned newhash \<Rightarrow>
                let match = (oldhash = Some newhash);
                    deps1 = (if \<not> match then append_cfile_deps bp fs src [] else deps);
                    c1 = (if \<not> match then c(bn \<mapsto> (newhash, deps1)) else c)
                in (case map_checks (check_and_update_hash_and_deps pf bp fs n) deps1 c1 of
                      (Raised e, c2) \<Rightarrow> (Raised e, c2)
                    | (Returned rs, c2) \<Rightarrow> (Returned (foldl (\<and>) match rs), c2))))"

subsection \<open>The build\<close>

definition pattern :: string where
  "pattern = ''{SYSROOT}''"

definition sysroot_query :: "string list" where
  "sysroot_query = [''arm-unknown-linux-gnueabihf-gcc'', ''-print-sysroot'']"

definition replace_sysroot :: "string \<Rightarrow> string list \<Rightarrow> string list" where
  "replace_sysroot sysroot l = map (\<lambda>s. str_replace pattern sysroot s) l"

text \<open>
  The local variables of \<^verbatim>\<open>build\<close> while it walks the files, with the file system, the
  toolchain object and the processes started so far.
\<close>

record locals =
  fs_now :: filesystem
  self :: toolchain
  relink :: bool
  obns :: "string list"
  objs :: "string list"
  events :: "event list"

datatype flow = Continue locals | Return bool locals | Raise exn locals

definition set_srcmd5 :: "cache \<Rightarrow> locals \<Rightarrow> locals" where
  "set_srcmd5 c L = L\<lparr>self := (self L)\<lparr>srcmd5 := c\<rparr>\<rparr>"

definition add_object :: "string \<Rightarrow> string \<Rightarrow> locals \<Rightarrow> locals" where
  "add_object obn objectfilename L = L\<lparr>obns := obns L @ [obn], objs := objs L @ [objectfilename]\<rparr>"

text \<open>
  The body of the inner loop, for one pair \<^verbatim>\<open>(CFile, CFLAGS)\<close>.
  \<^verbatim>\<open>self.srcmd5.pop(bn)\<close> raises \<^verbatim>\<open>KeyError\<close> when the cache has no entry for \<open>bn\<close>.
\<close>

definition build_cfile ::
  "platform \<Rightarrow> string \<Rightarrow> nat \<Rightarrow> string list \<Rightarrow> string \<times> string \<Rightarrow> locals \<Rightarrow> flow" where
  "build_cfile pf compiler limit Builder_CFLAGS cf L =
     (case cf of (CFile, CFLAGS) \<Rightarrow>
        if endswith CFile ''.c'' then
          (let bn = basename CFile;
               obn = splitext_root bn @ ''.o'';
               objectfilename = splitext_root CFile @ ''.o''
           in case check_and_update_hash_and_deps pf (buildpath (self L)) (fs_now L) limit bn
                     (srcmd5 (self L)) of
                (Raised e, c1) \<Rightarrow> Raise e (set_srcmd5 c1 L)
              | (Returned match, c1) \<Rightarrow>
                  if match then Continue (add_object obn objectfilename (set_srcmd5 c1 L))
                  else
                    (case shlex_split pf CFLAGS of
                       None \<Rightarrow> Raise ValueError ((set_srcmd5 c1 L)\<lparr>relink := True\<rparr>)
                     | Some unit_flags \<Rightarrow>
                         let argv = [compiler, ''-c'', CFile, ''-o'', objectfilename, ''-O2'']
                                    @ Builder_CFLAGS @ unit_flags;
                             (status, fs1) = spin pf argv (fs_now L);
                             L1 = (set_srcmd5 c1 L)
                                    \<lparr>fs_now := fs1, relink := True, events := events L @ [Spin argv]\<rparr>
                         in if status \<noteq> 0 then
                              (case c1 bn of
                                 None \<Rightarrow> Raise KeyError L1
                               | Some entry \<Rightarrow> Return False (set_srcmd5 (c1(bn := None)) L1))
                            else Continue (add_object obn objectfilename L1)))
        else if endswith CFile ''.o'' then Continue (add_object (basename CFile) CFile L)
        else Continue L)"

fun build_cfiles ::
  "platform \<Rightarrow> string \<Rightarrow> nat \<Rightarrow> string list \<Rightarrow> (string \<times> string) list \<Rightarrow> locals \<Rightarrow> flow" where
  "build_cfiles pf compiler limit Builder_CFLAGS [] L = Continue L"
| "build_cfiles pf compiler limit Builder_CFLAGS (cf # cfs) L =
     (case build_cfile pf compiler limit Builder_CFLAGS cf L of
        Continue L1 \<Rightarrow> build_cfiles pf compiler limit Builder_CFLAGS cfs L1
      | Return b L1 \<Rightarrow> Return b L1
      | Raise e L1 \<Rightarrow> Raise e L1)"

fun build_locations ::
  "platform \<Rightarrow> string \<Rightarrow> nat \<Rightarrow> string list \<Rightarrow> (int list \<times> (string \<times> string) list \<times> bool) list
     \<Rightarrow> locals \<Rightarrow> flow" where
  "build_locations pf compiler limit Builder_CFLAGS [] L = Continue L"
| "build_locations pf compiler limit Builder_CFLAGS ((Location, CFilesAndCFLAGS, DoCalls) # rest) L =
     (case build_cfiles pf compiler limit Builder_CFLAGS CFilesAndCFLAGS L of
        Continue L1 \<Rightarrow> build_locations pf compiler limit Builder_CFLAGS rest L1
      | Return b L1 \<Rightarrow> Return b L1
      | Raise e L1 \<Rightarrow> Raise e L1)"

text \<open>
  Writing the fingerprint file: \<^verbatim>\<open>open(name, "w")\<close> raises on a directory; otherwise the
  file holds the text afterwards. The directory of the file, the build directory, is taken
  to exist.
\<close>

definition write_file :: "filesystem \<Rightarrow> string \<Rightarrow> string \<Rightarrow> filesystem option" where
  "write_file fs name content =
     (if fs name = Some Directory then None else Some (fs(name \<mapsto> RegularFile content)))"

text \<open>
  The link step and the fingerprint, from \<^verbatim>\<open>Linking\<close> to the end of \<^verbatim>\<open>build\<close>.
\<close>

definition link_and_fingerprint ::
  "platform \<Rightarrow> string \<Rightarrow> string list \<Rightarrow> locals \<Rightarrow> bool outcome \<times> filesystem \<times> toolchain \<times> event list" where
  "link_and_fingerprint pf linker Builder_LDFLAGS L =
     (let argv = [linker] @ objs L @ [''-o'', bin_path (self L)] @ Builder_LDFLAGS;
          (status, fs1) = (if relink L then spin pf argv (fs_now L) else (0, fs_now L));
          ev1 = (if relink L then events L @ [Spin argv] else events L)
      in if relink L \<and> status \<noteq> 0 then (Returned False, fs1, self L, ev1)
         else
           (case compute_file_md5 pf fs1 (bin_path (self L)) of
              Raised e \<Rightarrow> (Raised e, fs1, self L, ev1)
            | Returned key \<Rightarrow>
                let st1 = (self L)\<lparr>md5key := Some key\<rparr>
                in (case write_file fs1 (GetMD5FileName st1) key of
                      None \<Rightarrow> (Raised IOError, fs1, st1, ev1)
                    | Some fs2 \<Rightarrow> (Returned True, fs2, st1, ev1))))"

text \<open>
  \<^verbatim>\<open>build\<close> from \<^verbatim>\<open>GENERATE OBJECT FILES\<close> on, with the flag lists it has assembled and
  the processes it has started before.
\<close>

definition build_objects ::
  "platform \<Rightarrow> controller \<Rightarrow> nat \<Rightarrow> string list \<Rightarrow> string list \<Rightarrow> filesystem \<Rightarrow> toolchain
     \<Rightarrow> event list \<Rightarrow> bool outcome \<times> filesystem \<times> toolchain \<times> event list" where
  "build_objects pf ctr limit Builder_CFLAGS Builder_LDFLAGS fs st evs =
     (case build_locations pf (getCompiler ctr) limit Builder_CFLAGS (LocationCFilesAndCFLAGS ctr)
             \<lparr>fs_now = fs, self = st, relink = \<not> path_exists fs (bin_path st),
              obns = [], objs = [], events = evs\<rparr> of
        Raise e L \<Rightarrow> (Raised e, fs_now L, self L, events L)
      | Return b L \<Rightarrow> (Returned b, fs_now L, self L, events L)
      | Continue L \<Rightarrow> link_and_fingerprint pf (getLinker ctr) Builder_LDFLAGS L)"

text \<open>
  \<^verbatim>\<open>build()\<close>. The attributes \<^verbatim>\<open>self.compiler\<close> and \<^verbatim>\<open>self.linker\<close> are written first and
  read later in the same call only, so the model reads the controller instead. The
  result is what the call returns or raises, the file system and the toolchain it leaves,
  and the processes it has started, in order.
\<close>

definition build ::
  "platform \<Rightarrow> controller \<Rightarrow> nat \<Rightarrow> filesystem \<Rightarrow> toolchain
     \<Rightarrow> bool outcome \<times> filesystem \<times> toolchain \<times> event list" where
  "build pf ctr limit fs st =
     (let Builder_CFLAGS_str = join '' '' (getBuilderCFLAGS pf ctr);
          Builder_LDFLAGS_str = join '' '' (getBuilderLDFLAGS pf ctr)
      in case shlex_split pf Builder_CFLAGS_str of
           None \<Rightarrow> (Raised ValueError, fs, st, [])
         | Some Builder_CFLAGS \<Rightarrow>
             (case shlex_split pf Builder_LDFLAGS_str of
                None \<Rightarrow> (Raised ValueError, fs, st, [])
              | Some Builder_LDFLAGS \<Rightarrow>
                  if contains pattern Builder_CFLAGS_str \<or> contains pattern Builder_LDFLAGS_str then
                    (case check_output pf sysroot_query of
                       CalledProcessError \<Rightarrow> (Returned False, fs, st, [CheckOutput sysroot_query])
                     | FileNotFoundError \<Rightarrow> (Returned False, fs, st, [CheckOutput sysroot_query])
                     | OtherFailure \<Rightarrow> (Raised OSError, fs, st, [CheckOutput sysroot_query])
                     | Output sysrootb \<Rightarrow>
                         let sysroot = strip sysrootb
                         in build_objects pf ctr limit
                              (replace_sysroot sysroot Builder_CFLAGS)
                              (replace_sysroot sysroot Builder_LDFLAGS)
                              fs st [CheckOutput sysroot_query])
                  else build_objects pf ctr limit Builder_CFLAGS Builder_LDFLAGS fs st []))"

definition locals_of :: "flow \<Rightarrow> locals" where
  "locals_of f = (case f of Continue L \<Rightarrow> L | Return b L \<Rightarrow> L | Raise e L \<Rightarrow> L)"

section \<open>A small project\<close>

text \<open>
  A platform and a project to run the definitions on. \<open>words_from\<close> splits at blanks as
  \<^verbatim>\<open>shlex.split\<close> does on a text without quotes and backslashes; the digest is replaced
  by a function that is easy to read. \<open>run_ok\<close> is a process that succeeds and writes
  its command line to the path after \<^verbatim>\<open>-o\<close>; \<open>run_fail\<close> is one that exits with
  status 1.
\<close>

fun words_from :: "string \<Rightarrow> string \<Rightarrow> string list" where
  "words_from cur [] = (if cur = [] then [] else [rev cur])"
| "words_from cur (c # cs) =
     (if c \<in> {CHR '' '', CHR 0x09, CHR 0x0D, CHR 0x0A}
      then (if cur = [] then words_from [] cs else rev cur # words_from [] cs)
      else words_from (c # cur) cs)"

fun output_of :: "string list \<Rightarrow> string option" where
  "output_of (x # y # ys) = (if x = ''-o'' then Some y else output_of (y # ys))"
| "output_of ys = None"

definition run_ok :: "string list \<Rightarrow> filesystem \<Rightarrow> int \<times> filesystem" where
  "run_ok argv fs =
     (case output_of argv of
        None \<Rightarrow> (0, fs)
      | Some p \<Rightarrow> (0, fs(p \<mapsto> RegularFile (join '' '' argv))))"

definition run_fail :: "string list \<Rightarrow> filesystem \<Rightarrow> int \<times> filesystem" where
  "run_fail argv fs = (1, fs)"

definition example_platform :: "(string list \<Rightarrow> filesystem \<Rightarrow> int \<times> filesystem) \<Rightarrow> platform" where
  "example_platform run =
     \<lparr>environ = Map.empty, md5_hexdigest = rev, shlex_split = (\<lambda>s. Some (words_from [] s)),
      check_output = (\<lambda>argv. FileNotFoundError), spin = run\<rparr>"

definition example_controller :: "(string \<times> string) list \<Rightarrow> controller" where
  "example_controller cfiles =
     \<lparr>target_CFLAGS = ''-fPIC'', target_LDFLAGS = ''-shared'', target_Compiler = ''gcc'',
      target_Linker = ''gcc'', LDFLAGS = [], LocationCFilesAndCFLAGS = [([], cfiles, False)],
      ProjectName = ''plc'', BuildPath = ''/build'', extension = ''.so''\<rparr>"

definition example_fs :: filesystem where
  \<open>example_fs = [''/build/main.c'' \<mapsto> RegularFile ''#include "util.h"'',
                 ''/build/util.h'' \<mapsto> RegularFile ''int f();'']\<close>

text \<open>
  A controller whose compiler flags hold the sysroot placeholder, a platform on which only
  the configured compiler \<^verbatim>\<open>gcc\<close> answers the sysroot query, and one on which the ARM cross
  compiler does.
\<close>

definition sysroot_controller :: controller where
  "sysroot_controller = (example_controller [])\<lparr>target_CFLAGS := ''--sysroot={SYSROOT} -I{SYSROOT}/inc''\<rparr>"

definition native_gcc_platform :: platform where
  "native_gcc_platform = (example_platform run_ok)
     \<lparr>check_output := (\<lambda>argv. if argv = [''gcc'', ''-print-sysroot''] then Output ''/opt/sysroot''
                                else FileNotFoundError)\<rparr>"

definition cross_gcc_platform :: platform where
  "cross_gcc_platform = (example_platform run_ok)
     \<lparr>check_output := (\<lambda>argv. if argv = [''arm-unknown-linux-gnueabihf-gcc'', ''-print-sysroot'']
                                then Output (''/opt/sysroot'' @ [CHR 0x0A])
                                else FileNotFoundError)\<rparr>"

text \<open>
  The first build of the small project with the unit \<^verbatim>\<open>/build/main.c\<close>, and the file
  system and the toolchain it leaves.
\<close>

definition example_build :: "bool outcome \<times> filesystem \<times> toolchain \<times> event list" where
  "example_build = build (example_platform run_ok) (example_controller [(''/build/main.c'', '''')]) 10
                     example_fs (toolchain_init (example_controller [(''/build/main.c'', '''')]))"

definition example_fs_after :: filesystem where
  "example_fs_after = fst (snd example_build)"

definition example_after :: toolchain where
  "example_after = fst (snd (snd example_build))"

text \<open>
  A project whose only unit lies in a subdirectory of the build directory, and two builds
  of it in a row, the second on what the first has left.
\<close>

definition nested_controller :: controller where
  "nested_controller = example_controller [(''/build/src/main.c'', '''')]"

definition nested_fs :: filesystem where
  "nested_fs = [''/build/src/main.c'' \<mapsto> RegularFile ''int x;'']"

definition nested_first :: "bool outcome \<times> filesystem \<times> toolchain \<times> event list" where
  "nested_first = build (example_platform run_ok) nested_controller 10 nested_fs
                    (toolchain_init nested_controller)"

definition nested_second :: "bool outcome \<times> filesystem \<times> toolchain \<times> event list" where
  "nested_second = build (example_platform run_ok) nested_controller 10
                     (fst (snd nested_first)) (fst (snd (snd nested_first)))"

section \<open>Notions for the properties\<close>

text \<open>
  \<open>rewritten\<close>: the entry of \<open>b\<close> has been overwritten on a digest mismatch, that is,
  the file of \<open>b\<close> is a regular file, its digest is not the one stored in \<open>c\<close>, and
  \<open>c'\<close> holds its digest with the dependencies that \<^verbatim>\<open>append_cfile_deps\<close> finds.
\<close>

definition rewritten :: "platform \<Rightarrow> string \<Rightarrow> filesystem \<Rightarrow> cache \<Rightarrow> cache \<Rightarrow> string \<Rightarrow> bool" where
  "rewritten pf bp fs c c' b =
     (case fs (path_join bp b) of
        Some (RegularFile content) \<Rightarrow>
          map_option fst (c b) \<noteq> Some (md5_hexdigest pf content)
          \<and> c' b = Some (md5_hexdigest pf content, append_cfile_deps bp fs (path_join bp b) [])
      | _ \<Rightarrow> False)"

text \<open>
  \<open>fresh\<close>: down to the given depth, the file of \<open>bn\<close> and the files of all its recorded
  dependencies are regular files whose digests are the ones in the cache.
\<close>

fun fresh :: "platform \<Rightarrow> string \<Rightarrow> filesystem \<Rightarrow> cache \<Rightarrow> nat \<Rightarrow> string \<Rightarrow> bool" where
  "fresh pf bp fs c 0 bn = False"
| "fresh pf bp fs c (Suc n) bn =
     (case fs (path_join bp bn) of
        Some (RegularFile content) \<Rightarrow>
          (case c bn of
             Some (h, ds) \<Rightarrow> h = md5_hexdigest pf content \<and> (\<forall>d \<in> set ds. fresh pf bp fs c n d)
           | None \<Rightarrow> False)
      | _ \<Rightarrow> False)"

text \<open>
  \<open>scan_closed\<close>: scanning the path of a name in \<open>S\<close> yields names in \<open>S\<close> only.
  \<open>cache_ok\<close>: the dependencies recorded for a name in \<open>S\<close> are in \<open>S\<close> and are
  existing paths.
\<close>

definition scan_closed :: "string \<Rightarrow> string set \<Rightarrow> bool" where
  "scan_closed bp S = (\<forall>b \<in> S. \<forall>fs. set (append_cfile_deps bp fs (path_join bp b) []) \<subseteq> S)"

definition cache_ok :: "string \<Rightarrow> string set \<Rightarrow> filesystem \<Rightarrow> cache \<Rightarrow> bool" where
  "cache_ok bp S fs c =
     (\<forall>b \<in> S. \<forall>h ds. c b = Some (h, ds) \<longrightarrow> (\<forall>d \<in> set ds. d \<in> S \<and> path_exists fs (path_join bp d)))"

text \<open>
  \<open>build_inv\<close>: what holds between two steps of the build loop when the names in \<open>S\<close>
  are the sources: their files are as at the start, the cache is sound, and the units
  seen so far are fresh.
\<close>

definition build_inv ::
  "platform \<Rightarrow> string \<Rightarrow> string set \<Rightarrow> nat \<Rightarrow> filesystem \<Rightarrow> string set \<Rightarrow> locals \<Rightarrow> bool" where
  "build_inv pf bp S k fs0 Done L =
     (buildpath (self L) = bp
      \<and> (\<forall>b \<in> S. fs_now L (path_join bp b) = fs0 (path_join bp b))
      \<and> cache_ok bp S (fs_now L) (srcmd5 (self L))
      \<and> (\<forall>u \<in> Done. u \<in> S \<and> fresh pf bp (fs_now L) (srcmd5 (self L)) k u))"

text \<open>\<open>compiled_units\<close>: the base names of the compilable units among some entries.\<close>

definition compiled_units :: "(string \<times> string) list \<Rightarrow> string set" where
  "compiled_units cfs = {basename (fst cf) | cf. cf \<in> set cfs \<and> endswith (fst cf) ''.c''}"

text \<open>
  \<open>sysroot_needed\<close>: one of the two flag strings holds the placeholder.
\<close>

definition sysroot_needed :: "platform \<Rightarrow> controller \<Rightarrow> bool" where
  "sysroot_needed pf ctr =
     (contains pattern (join '' '' (getBuilderCFLAGS pf ctr))
      \<or> contains pattern (join '' '' (getBuilderLDFLAGS pf ctr)))"

text \<open>
  The object file, and its base name, that \<^verbatim>\<open>build\<close> adds to the link set for one entry
  of the project, and the entries and object files of the whole project, in order.
\<close>

definition object_of :: "string \<times> string \<Rightarrow> string list" where
  "object_of cf =
     (if endswith (fst cf) ''.c'' then [splitext_root (fst cf) @ ''.o'']
      else if endswith (fst cf) ''.o'' then [fst cf] else [])"

definition object_name_of :: "string \<times> string \<Rightarrow> string list" where
  "object_name_of cf =
     (if endswith (fst cf) ''.c'' then [splitext_root (basename (fst cf)) @ ''.o'']
      else if endswith (fst cf) ''.o'' then [basename (fst cf)] else [])"

definition project_cfiles :: "controller \<Rightarrow> (string \<times> string) list" where
  "project_cfiles ctr = concat (map (\<lambda>loc. fst (snd loc)) (LocationCFilesAndCFLAGS ctr))"

definition project_objects :: "controller \<Rightarrow> string list" where
  "project_objects ctr = concat (map object_of (project_cfiles ctr))"

text \<open>
  \<open>assembled_flags\<close>: the two flag lists with which \<^verbatim>\<open>build\<close> gets to the object
  files, if it gets there. \<open>build_commands\<close>: the command lines \<^verbatim>\<open>build\<close> can hand to
  the process runner with these flags, one to compile each unit and the one that links.
  \<open>untouched\<close>: run on a file system on which the files of the names in \<open>S\<close> are as
  on \<open>fs0\<close>, none of the command lines in \<open>A\<close> changes a file of a name in \<open>S\<close>.
\<close>

definition assembled_flags :: "platform \<Rightarrow> controller \<Rightarrow> (string list \<times> string list) option" where
  "assembled_flags pf ctr =
     (case shlex_split pf (join '' '' (getBuilderCFLAGS pf ctr)) of
        None \<Rightarrow> None
      | Some cfl \<Rightarrow>
          (case shlex_split pf (join '' '' (getBuilderLDFLAGS pf ctr)) of
             None \<Rightarrow> None
           | Some ldl \<Rightarrow>
               if sysroot_needed pf ctr then
                 (case check_output pf sysroot_query of
                    Output out \<Rightarrow>
                      Some (replace_sysroot (strip out) cfl, replace_sysroot (strip out) ldl)
                  | _ \<Rightarrow> None)
               else Some (cfl, ldl)))"

definition compile_command :: "string \<Rightarrow> string list \<Rightarrow> string \<Rightarrow> string list \<Rightarrow> string list" where
  "compile_command compiler Builder_CFLAGS CFile unit_flags =
     [compiler, ''-c'', CFile, ''-o'', splitext_root CFile @ ''.o'', ''-O2''] @ Builder_CFLAGS @ unit_flags"

definition link_command :: "string \<Rightarrow> string list \<Rightarrow> string \<Rightarrow> string list \<Rightarrow> string list" where
  "link_command linker objects artifact Builder_LDFLAGS =
     [linker] @ objects @ [''-o'', artifact] @ Builder_LDFLAGS"

definition build_commands ::
  "platform \<Rightarrow> controller \<Rightarrow> toolchain \<Rightarrow> string list \<Rightarrow> string list \<Rightarrow> string list set" where
  "build_commands pf ctr st Builder_CFLAGS Builder_LDFLAGS =
     {compile_command (getCompiler ctr) Builder_CFLAGS (fst cf) unit_flags | cf unit_flags.
        cf \<in> set (project_cfiles ctr) \<and> endswith (fst cf) ''.c''
        \<and> shlex_split pf (snd cf) = Some unit_flags}
     \<union> {link_command (getLinker ctr) (project_objects ctr) (bin_path st) Builder_LDFLAGS}"

definition untouched ::
  "platform \<Rightarrow> string \<Rightarrow> string set \<Rightarrow> filesystem \<Rightarrow> string list set \<Rightarrow> bool" where
  "untouched pf bp S fs0 A =
     (\<forall>argv \<in> A. \<forall>fs. (\<forall>b \<in> S. fs (path_join bp b) = fs0 (path_join bp b))
        \<longrightarrow> (\<forall>b \<in> S. snd (spin pf argv fs) (path_join bp b) = fs (path_join bp b)))"

section \<open>Properties\<close>

subsection \<open>The include scanner\<close>

lemma splitlines_from_single:
  "\<forall>c\<in>set s. \<not> py_linebreak c \<Longrightarrow> cur @ s \<noteq> [] \<Longrightarrow> splitlines_from cur s = [rev cur @ s]"
proof (induction s arbitrary: cur)
  case Nil
  then show ?case by simp
next
  case (Cons c s)
  have nb: "\<not> py_linebreak c" using Cons.prems(1) by simp
  then have "c \<noteq> CHR 0x0D" by (auto simp: py_linebreak_def)
  with nb have "splitlines_from cur (c # s) = splitlines_from (c # cur) s" by simp
  also have "\<dots> = [rev (c # cur) @ s]" using Cons.prems by (intro Cons.IH) auto
  finally show ?case by simp
qed

lemma py_isspace_hash_blank: "\<not> py_isspace CHR ''#''" "py_isspace CHR '' ''"
  by (simp_all add: py_isspace_def)

lemma includes_re_match_directive:
  assumes "\<not> py_isspace opening"
  shows "includes_re_match (''#include '' @ opening # r3)
       = (if opening = dquote \<or> opening = CHR ''<''
          then (if dropWhile name_char r3 = [] then None else Some (takeWhile name_char r3))
          else None)"
  using assms by (simp add: includes_re_match_def py_isspace_hash_blank)

text \<open>
  C10. The opening and the closing delimiter of an include line are matched
  independently: a line \<^verbatim>\<open>#include\<close>, a blank, a quote or \<^verbatim>\<open><\<close>, a name without quote,
  \<^verbatim>\<open>>\<close> and line boundary, and a quote or \<^verbatim>\<open>>\<close> yields the name, whichever of the four
  pairs of delimiters is used, and the name is appended to the dependencies if it is an
  existing path under the build path.
\<close>

theorem includes_re_delimiters_independent:
  assumes nm: "\<forall>c\<in>set NAME. name_char c \<and> \<not> py_linebreak c"
    and op: "opening = dquote \<or> opening = CHR ''<''"
    and cl: "closing = dquote \<or> closing = CHR ''>''"
  shows "includes_re_match (''#include '' @ opening # NAME @ [closing]) = Some NAME
       \<and> append_cfile_deps bp fs (''#include '' @ opening # NAME @ [closing]) deps
           = (if path_exists fs (path_join bp NAME) then deps @ [NAME] else deps)"
proof -
  let ?l = "''#include '' @ opening # NAME @ [closing]"
  have nsp: "\<not> py_isspace opening" using op by (auto simp: py_isspace_def dquote_def)
  have ncl: "\<not> name_char closing" using cl by (auto simp: name_char_def)
  have tw: "takeWhile name_char (NAME @ [closing]) = NAME"
    using nm ncl by simp
  have dw: "dropWhile name_char (NAME @ [closing]) = [closing]"
    using nm ncl by simp
  have m: "includes_re_match ?l = Some NAME"
    using includes_re_match_directive[OF nsp, of "NAME @ [closing]"] op tw dw by simp
  have "\<forall>c\<in>set ?l. \<not> py_linebreak c"
    using nm op cl by (auto simp: py_linebreak_def dquote_def)
  then have "splitlines ?l = [?l]"
    unfolding splitlines_def using splitlines_from_single[of ?l "[]"] by simp
  then have "append_cfile_deps bp fs ?l deps
           = (if path_exists fs (path_join bp NAME) then deps @ [NAME] else deps)"
    using m by (simp add: append_cfile_deps_def)
  with m show ?thesis by simp
qed

theorem includes_re_delimiters_independent_witness:
  \<open>includes_re_match ''#include "util.h>'' = Some ''util.h''
   \<and> append_cfile_deps ''/build'' example_fs ''#include "util.h>'' [] = [''util.h'']\<close>
  using includes_re_delimiters_independent
          [of "''util.h''" dquote "CHR ''>''" "''/build''" example_fs "[]"]
  by (simp add: name_char_def py_linebreak_def dquote_def path_exists_def path_join_def
        example_fs_def)

subsection \<open>The flags\<close>

text \<open>
  C3. With \<^verbatim>\<open>LDFLAGS\<close> set in the environment, \<^verbatim>\<open>getBuilderLDFLAGS\<close> returns the
  controller's and the target's link flags and nothing else: the variable it looks up is
  \<^verbatim>\<open>LDLAGS\<close>. \<^verbatim>\<open>getBuilderCFLAGS\<close> does append the value of \<^verbatim>\<open>CFLAGS\<close>.
\<close>

theorem getBuilderLDFLAGS_ignores_LDFLAGS:
  "getBuilderLDFLAGS (pf\<lparr>environ := [''LDFLAGS'' \<mapsto> ''-lm'']\<rparr>) ctr
     = LDFLAGS ctr @ [target_LDFLAGS ctr]
   \<and> getBuilderLDFLAGS (pf\<lparr>environ := [''LDLAGS'' \<mapsto> ''-lm'']\<rparr>) ctr
     = LDFLAGS ctr @ [target_LDFLAGS ctr, ''-lm'']
   \<and> getBuilderCFLAGS (pf\<lparr>environ := [''CFLAGS'' \<mapsto> ''-g'']\<rparr>) ctr
     = [target_CFLAGS ctr, ''-g'']"
  by (simp add: getBuilderLDFLAGS_def getBuilderCFLAGS_def)

subsection \<open>The cache\<close>

text \<open>
  C1. \<^verbatim>\<open>main.c\<close> includes \<^verbatim>\<open>util.h\<close>, both in the build directory. The first check of
  \<^verbatim>\<open>main.c\<close> finds it changed and records no dependency, because the text scanned is the
  path \<^verbatim>\<open>/build/main.c\<close>; scanning the content of the file would have found \<^verbatim>\<open>util.h\<close>.
  After \<^verbatim>\<open>util.h\<close> has been modified, the next check of \<^verbatim>\<open>main.c\<close> reports a match.
\<close>

theorem check_misses_changed_include:
  \<open>check_and_update_hash_and_deps pf ''/build'' example_fs (Suc n) ''main.c'' Map.empty
     = (Returned False, [''main.c'' \<mapsto> (md5_hexdigest pf ''#include "util.h"'', [])])
   \<and> check_and_update_hash_and_deps pf ''/build''
        (example_fs(''/build/util.h'' \<mapsto> RegularFile ''int g();'')) (Suc m) ''main.c''
        [''main.c'' \<mapsto> (md5_hexdigest pf ''#include "util.h"'', [])]
     = (Returned True, [''main.c'' \<mapsto> (md5_hexdigest pf ''#include "util.h"'', [])])
   \<and> append_cfile_deps ''/build'' example_fs ''#include "util.h"'' [] = [''util.h'']\<close>
  by (simp add: example_fs_def path_join_def path_exists_def compute_file_md5_def
        append_cfile_deps_def splitlines_def py_linebreak_def includes_re_match_def
        py_isspace_def name_char_def dquote_def)

text \<open>
  C8. A name whose file does not exist under the build path is reported as not matched:
  the check returns \<open>False\<close>, raises nothing and leaves the cache as it is. In \<^verbatim>\<open>build\<close>
  the compiler is then started for that unit.
\<close>

theorem check_missing_file:
  assumes missing: "\<not> path_exists fs (path_join bp bn)"
  shows "check_and_update_hash_and_deps pf bp fs (Suc n) bn c = (Returned False, c)
       \<and> (fs_now L = fs \<and> buildpath (self L) = bp \<and> srcmd5 (self L) = c \<and> basename CFile = bn
            \<and> endswith CFile ''.c'' \<and> shlex_split pf CFLAGS = Some unit_flags
          \<longrightarrow> events (locals_of (build_cfile pf compiler (Suc n) Builder_CFLAGS (CFile, CFLAGS) L))
                = events L @ [Spin ([compiler, ''-c'', CFile, ''-o'', splitext_root CFile @ ''.o'', ''-O2'']
                                    @ Builder_CFLAGS @ unit_flags)]
            \<and> relink (locals_of (build_cfile pf compiler (Suc n) Builder_CFLAGS (CFile, CFLAGS) L)))"
proof -
  have chk: "check_and_update_hash_and_deps pf bp fs (Suc n) bn c = (Returned False, c)"
    using missing by (simp split: option.splits prod.splits)
  show ?thesis
    using chk
    by (auto simp: build_cfile_def Let_def locals_of_def set_srcmd5_def add_object_def
             split: prod.splits option.splits)
qed

theorem check_missing_file_witness:
  "check_and_update_hash_and_deps (example_platform run_ok) ''/build'' example_fs (Suc 0) ''plc.c'' Map.empty
     = (Returned False, Map.empty)
   \<and> events (locals_of (build_cfile (example_platform run_ok) ''gcc'' (Suc 0) [''-fPIC'']
                (''/build/plc.c'', ''-g'')
                \<lparr>fs_now = example_fs, self = toolchain_init (example_controller []),
                 relink = False, obns = [], objs = [], events = []\<rparr>))
       = [Spin [''gcc'', ''-c'', ''/build/plc.c'', ''-o'', ''/build/plc.o'', ''-O2'', ''-fPIC'', ''-g'']]"
proof -
  let ?L = "\<lparr>fs_now = example_fs, self = toolchain_init (example_controller []),
                 relink = False, obns = [], objs = [], events = []\<rparr>"
  have missing: "\<not> path_exists example_fs (path_join ''/build'' ''plc.c'')"
    by (simp add: path_exists_def path_join_def example_fs_def)
  have pre: "fs_now ?L = example_fs \<and> buildpath (self ?L) = ''/build'' \<and> srcmd5 (self ?L) = Map.empty
            \<and> basename ''/build/plc.c'' = ''plc.c'' \<and> endswith ''/build/plc.c'' ''.c''
            \<and> shlex_split (example_platform run_ok) ''-g'' = Some [''-g'']"
    by (simp add: toolchain_init_def reset_for_def example_controller_def basename_def
          endswith_def suffix_def example_platform_def)
  have root: "splitext_root ''/build/plc.c'' = ''/build/plc''"
    by code_simp
  show ?thesis
    using check_missing_file [OF missing, where pf = "example_platform run_ok" and n = 0
            and c = Map.empty and L = ?L and CFile = "''/build/plc.c''" and CFLAGS = "''-g''"
            and unit_flags = "[''-g'']" and compiler = "''gcc''" and Builder_CFLAGS = "[''-fPIC'']"]
          pre root
    by simp
qed

text \<open>
  In general: when scanning the path of a file finds nothing, its first check records the
  empty dependency list, and from then on its check reports a match as long as its own
  content is the same, whatever happens to other files.
\<close>

lemma check_scans_path:
  assumes "fs (path_join bp bn) = Some (RegularFile content)"
      and "c bn = None"
      and "append_cfile_deps bp fs (path_join bp bn) [] = []"
  shows "check_and_update_hash_and_deps pf bp fs (Suc n) bn c
           = (Returned False, c(bn \<mapsto> (md5_hexdigest pf content, [])))"
  using assms by (simp add: path_exists_def compute_file_md5_def)

lemma check_without_dependencies:
  assumes "fs (path_join bp bn) = Some (RegularFile content)"
      and "c bn = Some (md5_hexdigest pf content, [])"
  shows "check_and_update_hash_and_deps pf bp fs (Suc n) bn c = (Returned True, c)"
  using assms by (simp add: path_exists_def compute_file_md5_def)

subsection \<open>A failing compilation\<close>

text \<open>
  C4. The project has the one unit \<^verbatim>\<open>/build/main.c\<close>, the file does not exist, the cache
  is empty and the compiler exits with status 1. The check returns before the cache gets
  an entry, so \<^verbatim>\<open>self.srcmd5.pop(bn)\<close> raises \<^verbatim>\<open>KeyError\<close>: \<^verbatim>\<open>build\<close> does not return.
\<close>

theorem build_failing_missing_unit_raises:
  "fst (build (example_platform run_fail) (example_controller [(''/build/main.c'', '''')]) 10
          Map.empty (toolchain_init (example_controller [(''/build/main.c'', '''')])))
     = Raised KeyError
   \<and> snd (snd (snd (build (example_platform run_fail) (example_controller [(''/build/main.c'', '''')]) 10
          Map.empty (toolchain_init (example_controller [(''/build/main.c'', '''')])))))
     = [Spin [''gcc'', ''-c'', ''/build/main.c'', ''-o'', ''/build/main.o'', ''-O2'', ''-fPIC'']]"
  by code_simp

subsection \<open>The sysroot placeholder\<close>

lemma replace_from_skip:
  "length xs = k \<Longrightarrow> replace_from old new k (xs @ ys) = replace_from old new 0 ys"
  by (induction xs arbitrary: k) auto

lemma replace_from_absent:
  "\<not> contains old s \<Longrightarrow> replace_from old new 0 s = s"
  by (induction s) auto

lemma prefix_short:
  assumes "prefix p (u @ v)" and "length p \<le> length u"
  shows "prefix p u"
  using assms by (metis prefix_length_prefix prefixI)

lemma replace_from_first:
  assumes "old \<noteq> []" and "\<not> contains old (a @ butlast old)"
  shows "replace_from old new 0 (a @ old @ b) = a @ new @ replace_from old new 0 b"
  using assms(2)
proof (induction a)
  case Nil
  obtain c cs where old: "old = c # cs" using assms(1) by (cases old) auto
  have "replace_from old new 0 (old @ b) = new @ replace_from old new (length old - 1) (cs @ b)"
    by (simp add: old)
  also have "replace_from old new (length old - 1) (cs @ b) = replace_from old new 0 b"
    by (rule replace_from_skip) (simp add: old)
  finally show ?case by simp
next
  case (Cons x a)
  have np: "\<not> prefix old (x # a @ butlast old)" and nc: "\<not> contains old (a @ butlast old)"
    using Cons.prems by auto
  have "\<not> prefix old ((x # a @ butlast old) @ ([last old] @ b))"
  proof
    assume "prefix old ((x # a @ butlast old) @ ([last old] @ b))"
    moreover have "length old \<le> length (x # a @ butlast old)" by simp
    ultimately have "prefix old (x # a @ butlast old)" by (rule prefix_short)
    with np show False by contradiction
  qed
  moreover have "(x # a @ butlast old) @ ([last old] @ b) = x # a @ old @ b"
  proof -
    have "old = butlast old @ [last old]" using assms(1) by simp
    then have "old @ b = butlast old @ [last old] @ b" by (metis append_assoc)
    then show ?thesis by simp
  qed
  ultimately have "\<not> prefix old (x # a @ old @ b)" by metis
  then have "replace_from old new 0 ((x # a) @ old @ b) = x # replace_from old new 0 (a @ old @ b)"
    by simp
  with Cons.IH[OF nc] show ?case by simp
qed

text \<open>
  C2 as the claim states it fails: the flags hold the placeholder and the configured compiler
  \<^verbatim>\<open>gcc\<close> would answer the query, but \<^verbatim>\<open>build\<close> asks the executable
  \<^verbatim>\<open>arm-unknown-linux-gnueabihf-gcc\<close>, which is missing, and returns \<open>False\<close>.
\<close>

theorem build_sysroot_query_counterexample:
  "contains pattern (join '' '' (getBuilderCFLAGS native_gcc_platform sysroot_controller))
   \<and> check_output native_gcc_platform [getCompiler sysroot_controller, ''-print-sysroot'']
       = Output ''/opt/sysroot''
   \<and> fst (build native_gcc_platform sysroot_controller 10 example_fs (toolchain_init sysroot_controller))
       = Returned False
   \<and> snd (snd (snd (build native_gcc_platform sysroot_controller 10 example_fs
                       (toolchain_init sysroot_controller))))
       = [CheckOutput [''arm-unknown-linux-gnueabihf-gcc'', ''-print-sysroot'']]"
  by code_simp

text \<open>
  C2, amended. When one of the two flag strings holds the placeholder, \<^verbatim>\<open>build\<close> asks
  the fixed executable \<^verbatim>\<open>arm-unknown-linux-gnueabihf-gcc\<close> for its sysroot. On an answer it
  goes on with both flag lists, every flag with the placeholder replaced by the stripped
  answer: the replacement leaves a text without the placeholder as it is, and replaces
  the first occurrence and then goes on behind it. When the query exits with an error or
  the executable is missing, \<^verbatim>\<open>build\<close> returns \<open>False\<close>, having started no other process
  and changed nothing.
\<close>

theorem build_resolves_sysroot:
  assumes cs: "shlex_split pf (join '' '' (getBuilderCFLAGS pf ctr)) = Some cfl"
      and ls: "shlex_split pf (join '' '' (getBuilderLDFLAGS pf ctr)) = Some ldl"
      and pat: "contains pattern (join '' '' (getBuilderCFLAGS pf ctr))
                \<or> contains pattern (join '' '' (getBuilderLDFLAGS pf ctr))"
  shows "(check_output pf sysroot_query = Output out \<longrightarrow>
            build pf ctr limit fs st
              = build_objects pf ctr limit (map (str_replace pattern (strip out)) cfl)
                  (map (str_replace pattern (strip out)) ldl) fs st [CheckOutput sysroot_query])
       \<and> (check_output pf sysroot_query = CalledProcessError
            \<or> check_output pf sysroot_query = FileNotFoundError \<longrightarrow>
            build pf ctr limit fs st = (Returned False, fs, st, [CheckOutput sysroot_query]))
       \<and> sysroot_query = [''arm-unknown-linux-gnueabihf-gcc'', ''-print-sysroot'']
       \<and> (\<not> contains pattern (a @ butlast pattern) \<longrightarrow>
            str_replace pattern new (a @ pattern @ b) = a @ new @ str_replace pattern new b)
       \<and> (\<not> contains pattern s \<longrightarrow> str_replace pattern new s = s)"
proof -
  have ok: "check_output pf sysroot_query = Output out \<Longrightarrow>
            build pf ctr limit fs st
              = build_objects pf ctr limit (map (str_replace pattern (strip out)) cfl)
                  (map (str_replace pattern (strip out)) ldl) fs st [CheckOutput sysroot_query]"
    using cs ls pat by (simp add: build_def Let_def replace_sysroot_def)
  have failed: "check_output pf sysroot_query = CalledProcessError
            \<or> check_output pf sysroot_query = FileNotFoundError \<Longrightarrow>
            build pf ctr limit fs st = (Returned False, fs, st, [CheckOutput sysroot_query])"
    using cs ls pat by (auto simp: build_def Let_def)
  have ne: "pattern \<noteq> []" by (simp add: pattern_def)
  have first: "\<not> contains pattern (a @ butlast pattern) \<Longrightarrow>
            str_replace pattern new (a @ pattern @ b) = a @ new @ str_replace pattern new b"
    unfolding str_replace_def by (rule replace_from_first[OF ne])
  have absent: "\<not> contains pattern s \<Longrightarrow> str_replace pattern new s = s"
    unfolding str_replace_def by (rule replace_from_absent)
  show ?thesis using ok failed first absent by (simp add: sysroot_query_def)
qed

theorem build_resolves_sysroot_witness:
  "build cross_gcc_platform sysroot_controller 10 example_fs (toolchain_init sysroot_controller)
     = build_objects cross_gcc_platform sysroot_controller 10
         [''--sysroot=/opt/sysroot'', ''-I/opt/sysroot/inc''] [''-shared'']
         example_fs (toolchain_init sysroot_controller) [CheckOutput sysroot_query]"
  using build_resolves_sysroot [of cross_gcc_platform sysroot_controller
          "[''--sysroot={SYSROOT}'', ''-I{SYSROOT}/inc'']" "[''-shared'']" "''/opt/sysroot'' @ [CHR 0x0A]"
          10 example_fs "toolchain_init sysroot_controller"]
  by (simp add: cross_gcc_platform_def sysroot_controller_def example_platform_def
        example_controller_def getBuilderCFLAGS_def getBuilderLDFLAGS_def pattern_def
        sysroot_query_def str_replace_def strip_def py_isspace_def)

subsection \<open>How a check changes the cache\<close>

lemma check_SucE:
  assumes "check_and_update_hash_and_deps pf bp fs (Suc n) bn c = (r, c')"
  obtains
    (missing) "fs (path_join bp bn) = None" "r = Returned False" "c' = c"
  | (directory) "fs (path_join bp bn) = Some Directory" "r = Raised IOError" "c' = c"
  | (matched) content ds rr where
      "fs (path_join bp bn) = Some (RegularFile content)"
      "c bn = Some (md5_hexdigest pf content, ds)"
      "map_checks (check_and_update_hash_and_deps pf bp fs n) ds c = (rr, c')"
      "r = (case rr of Raised e \<Rightarrow> Raised e | Returned rs \<Rightarrow> Returned (foldl (\<and>) True rs))"
  | (changed) content rr where
      "fs (path_join bp bn) = Some (RegularFile content)"
      "map_option fst (c bn) \<noteq> Some (md5_hexdigest pf content)"
      "map_checks (check_and_update_hash_and_deps pf bp fs n)
         (append_cfile_deps bp fs (path_join bp bn) [])
         (c(bn \<mapsto> (md5_hexdigest pf content, append_cfile_deps bp fs (path_join bp bn) [])))
       = (rr, c')"
      "r = (case rr of Raised e \<Rightarrow> Raised e | Returned rs \<Rightarrow> Returned (foldl (\<and>) False rs))"
proof (cases "fs (path_join bp bn)")
  case None
  with assms have "r = Returned False" "c' = c" by (auto simp: path_exists_def split: prod.splits option.splits)
  with None show ?thesis by (rule missing)
next
  case (Some node)
  show ?thesis
  proof (cases node)
    case Directory
    with Some assms have "r = Raised IOError" "c' = c"
      by (auto simp: path_exists_def compute_file_md5_def split: prod.splits option.splits)
    with Some Directory show ?thesis by (intro directory) auto
  next
    case (RegularFile content)
    note regf = Some[unfolded RegularFile]
    show ?thesis
    proof (cases "map_option fst (c bn) = Some (md5_hexdigest pf content)")
      case True
      then obtain ds where cb: "c bn = Some (md5_hexdigest pf content, ds)" by (cases "c bn") auto
      obtain rr c2 where m: "map_checks (check_and_update_hash_and_deps pf bp fs n) ds c = (rr, c2)"
        by (cases "map_checks (check_and_update_hash_and_deps pf bp fs n) ds c")
      from assms regf cb m have "c' = c2"
        "r = (case rr of Raised e \<Rightarrow> Raised e | Returned rs \<Rightarrow> Returned (foldl (\<and>) True rs))"
        by (auto simp: path_exists_def compute_file_md5_def Let_def split: outcome.splits)
      with regf cb m show ?thesis by (intro matched) auto
    next
      case False
      let ?deps = "append_cfile_deps bp fs (path_join bp bn) []"
      let ?c1 = "c(bn \<mapsto> (md5_hexdigest pf content, ?deps))"
      obtain rr c2 where m: "map_checks (check_and_update_hash_and_deps pf bp fs n) ?deps ?c1 = (rr, c2)"
        by (cases "map_checks (check_and_update_hash_and_deps pf bp fs n) ?deps ?c1")
      from False have neq: "(case c bn of None \<Rightarrow> (None, []) | Some (h, ds) \<Rightarrow> (Some h, ds)) = (oh, od)
          \<Longrightarrow> oh \<noteq> Some (md5_hexdigest pf content)" for oh od
        by (auto split: option.splits)
      from assms regf m neq have "c' = c2"
        "r = (case rr of Raised e \<Rightarrow> Raised e | Returned rs \<Rightarrow> Returned (foldl (\<and>) False rs))"
        by (auto simp: path_exists_def compute_file_md5_def Let_def split: outcome.splits prod.splits)
      with regf False m show ?thesis by (intro changed) auto
    qed
  qed
qed

lemma map_checks_ConsE:
  assumes "map_checks f (d # ds) c = (rr, c')"
  obtains
    (first_raised) e where "f d c = (Raised e, c')" "rr = Raised e"
  | (first_returned) r c1 rr' where
      "f d c = (Returned r, c1)" "map_checks f ds c1 = (rr', c')"
      "rr = (case rr' of Raised e \<Rightarrow> Raised e | Returned rs \<Rightarrow> Returned (r # rs))"
proof (cases "f d c")
  case (Pair o1 c1)
  show ?thesis
  proof (cases o1)
    case (Raised e)
    with Pair assms have "f d c = (Raised e, c')" "rr = Raised e" by auto
    then show ?thesis by (rule first_raised)
  next
    case (Returned r)
    obtain rr' c2 where m: "map_checks f ds c1 = (rr', c2)" by (cases "map_checks f ds c1")
    with Pair Returned assms have "c' = c2"
      "rr = (case rr' of Raised e \<Rightarrow> Raised e | Returned rs \<Rightarrow> Returned (r # rs))"
      by (auto split: outcome.splits)
    with Pair Returned m show ?thesis by (intro first_returned) auto
  qed
qed

lemma foldl_conj: "foldl (\<and>) b rs = (b \<and> (\<forall>r \<in> set rs. r))"
  by (induction rs arbitrary: b) auto

lemma rewritten_step:
  assumes "c1 b = c b \<or> rewritten pf bp fs c c1 b"
      and "c2 b = c1 b \<or> rewritten pf bp fs c1 c2 b"
  shows "c2 b = c b \<or> rewritten pf bp fs c c2 b"
  using assms by (auto simp: rewritten_def split: option.splits fsnode.splits)

lemma map_checks_rewrites:
  assumes f: "\<And>d c r c'. f d c = (r, c') \<Longrightarrow> c' b = c b \<or> rewritten pf bp fs c c' b"
      and m: "map_checks f ds c = (rr, c')"
  shows "c' b = c b \<or> rewritten pf bp fs c c' b"
  using m
proof (induction ds arbitrary: c rr c')
  case Nil
  then show ?case by simp
next
  case (Cons d ds)
  from Cons.prems show ?case
  proof (cases rule: map_checks_ConsE)
    case (first_raised e)
    then show ?thesis using f by blast
  next
    case (first_returned r c1 rr')
    have "c1 b = c b \<or> rewritten pf bp fs c c1 b" using f first_returned(1) by blast
    moreover have "c' b = c1 b \<or> rewritten pf bp fs c1 c' b" using Cons.IH first_returned(2) by blast
    ultimately show ?thesis by (rule rewritten_step)
  qed
qed

lemma check_rewrites:
  "check_and_update_hash_and_deps pf bp fs n bn c = (r, c')
   \<Longrightarrow> c' b = c b \<or> rewritten pf bp fs c c' b"
proof (induction n arbitrary: bn c r c')
  case 0
  then show ?case by simp
next
  case (Suc n)
  from Suc.prems show ?case
  proof (cases rule: check_SucE)
    case missing
    then show ?thesis by simp
  next
    case directory
    then show ?thesis by simp
  next
    case (matched content ds rr)
    show ?thesis by (rule map_checks_rewrites[OF Suc.IH matched(3)])
  next
    case (changed content rr)
    let ?c1 = "c(bn \<mapsto> (md5_hexdigest pf content, append_cfile_deps bp fs (path_join bp bn) []))"
    have "?c1 b = c b \<or> rewritten pf bp fs c ?c1 b"
      using changed(1,2) by (auto simp: rewritten_def)
    moreover have "c' b = ?c1 b \<or> rewritten pf bp fs ?c1 c' b"
      by (rule map_checks_rewrites[OF Suc.IH changed(3)])
    ultimately show ?thesis by (rule rewritten_step)
  qed
qed

lemma map_checks_check_rewrites:
  "map_checks (check_and_update_hash_and_deps pf bp fs n) ds c = (rr, c')
   \<Longrightarrow> c' b = c b \<or> rewritten pf bp fs c c' b"
  by (erule map_checks_rewrites[rotated]) (rule check_rewrites)

lemma map_checks_all_true:
  assumes f: "\<And>d c c'. f d c = (Returned True, c') \<Longrightarrow> c' = c"
      and m: "map_checks f ds c = (Returned rs, c')"
      and t: "\<forall>r \<in> set rs. r"
  shows "c' = c"
  using m t
proof (induction ds arbitrary: c rs c')
  case Nil
  then show ?case by simp
next
  case (Cons d ds)
  from Cons.prems(1) show ?case
  proof (cases rule: map_checks_ConsE)
    case (first_raised e)
    then show ?thesis by simp
  next
    case (first_returned r c1 rr')
    then obtain rs' where rr': "rr' = Returned rs'" and rs: "rs = r # rs'"
      by (cases rr') auto
    with Cons.prems(2) have "r" "\<forall>r \<in> set rs'. r" by auto
    with first_returned rr' have "c1 = c" "c' = c1" using f Cons.IH by auto
    then show ?thesis by simp
  qed
qed

lemma check_matched_unchanged:
  "check_and_update_hash_and_deps pf bp fs n bn c = (Returned True, c') \<Longrightarrow> c' = c"
proof (induction n arbitrary: bn c c')
  case 0
  then show ?case by simp
next
  case (Suc n)
  from Suc.prems show ?case
  proof (cases rule: check_SucE)
    case missing
    then show ?thesis by simp
  next
    case directory
    then show ?thesis by simp
  next
    case (matched content ds rr)
    then obtain rs where "rr = Returned rs" "\<forall>r \<in> set rs. r"
      by (cases rr) (auto simp: foldl_conj)
    show ?thesis
    proof (rule map_checks_all_true[where f = "check_and_update_hash_and_deps pf bp fs n"])
      show "\<And>d c c'. check_and_update_hash_and_deps pf bp fs n d c = (Returned True, c') \<Longrightarrow> c' = c"
        by (rule Suc.IH)
      show "map_checks (check_and_update_hash_and_deps pf bp fs n) ds c = (Returned rs, c')"
        using matched(3) \<open>rr = Returned rs\<close> by simp
      show "\<forall>r \<in> set rs. r" by fact
    qed
  next
    case (changed content rr)
    then show ?thesis by (cases rr) (auto simp: foldl_conj)
  qed
qed

lemma map_checks_fresh:
  assumes "\<And>d. d \<in> set ds \<Longrightarrow> f d c = (Returned True, c)"
  shows "map_checks f ds c = (Returned (replicate (length ds) True), c)"
  using assms by (induction ds) auto

lemma fresh_check:
  "fresh pf bp fs c n bn \<Longrightarrow> check_and_update_hash_and_deps pf bp fs n bn c = (Returned True, c)"
proof (induction n arbitrary: bn)
  case 0
  then show ?case by simp
next
  case (Suc n)
  from Suc.prems obtain content ds where
    regf: "fs (path_join bp bn) = Some (RegularFile content)" and
    cb: "c bn = Some (md5_hexdigest pf content, ds)" and
    ds: "\<forall>d \<in> set ds. fresh pf bp fs c n d"
    by (auto split: option.splits fsnode.splits)
  have "map_checks (check_and_update_hash_and_deps pf bp fs n) ds c
          = (Returned (replicate (length ds) True), c)"
    using ds Suc.IH by (intro map_checks_fresh) auto
  then show ?case
    using regf cb by (simp add: path_exists_def compute_file_md5_def foldl_conj)
qed

lemma fresh_rewrites:
  assumes "fresh pf bp fs c n bn"
      and "\<And>b. c' b = c b \<or> rewritten pf bp fs c c' b"
  shows "fresh pf bp fs c' n bn"
  using assms(1)
proof (induction n arbitrary: bn)
  case 0
  then show ?case by simp
next
  case (Suc n)
  from Suc.prems obtain content ds where
    regf: "fs (path_join bp bn) = Some (RegularFile content)" and
    cb: "c bn = Some (md5_hexdigest pf content, ds)" and
    ds: "\<forall>d \<in> set ds. fresh pf bp fs c n d"
    by (auto split: option.splits fsnode.splits)
  have "c' bn = c bn" using assms(2)[of bn] regf cb by (auto simp: rewritten_def)
  with regf cb ds Suc.IH show ?case by auto
qed

lemma append_cfile_deps_lines_exist:
  "set (append_cfile_deps_lines bp fs ls deps) \<subseteq> set deps \<union> {d. path_exists fs (path_join bp d)}"
proof (induction ls arbitrary: deps)
  case Nil
  then show ?case by simp
next
  case (Cons l ls)
  show ?case
  proof (cases "includes_re_match l")
    case None
    then show ?thesis using Cons.IH[of deps] by simp
  next
    case (Some depfn)
    show ?thesis
    proof (cases "path_exists fs (path_join bp depfn)")
      case True
      then show ?thesis using Some Cons.IH[of "deps @ [depfn]"] by auto
    next
      case False
      then show ?thesis using Some Cons.IH[of deps] by simp
    qed
  qed
qed

lemma append_cfile_deps_exist:
  "d \<in> set (append_cfile_deps bp fs src []) \<Longrightarrow> path_exists fs (path_join bp d)"
  using append_cfile_deps_lines_exist[of bp fs "splitlines src" "[]"]
  by (auto simp: append_cfile_deps_def)

lemma cache_ok_rewrites:
  assumes ok: "cache_ok bp S fs c"
      and sc: "scan_closed bp S"
      and rw: "\<And>b. c' b = c b \<or> rewritten pf bp fs c c' b"
  shows "cache_ok bp S fs c'"
  unfolding cache_ok_def
proof (intro allI impI ballI)
  fix b h ds d
  assume b: "b \<in> S" and cb: "c' b = Some (h, ds)" and d: "d \<in> set ds"
  from rw[of b] show "d \<in> S \<and> path_exists fs (path_join bp d)"
  proof
    assume "c' b = c b"
    with b cb d ok show ?thesis unfolding cache_ok_def by metis
  next
    assume "rewritten pf bp fs c c' b"
    with cb have "ds = append_cfile_deps bp fs (path_join bp b) []"
      by (auto simp: rewritten_def split: option.splits fsnode.splits)
    with d b sc show ?thesis unfolding scan_closed_def by (auto dest: append_cfile_deps_exist)
  qed
qed

lemma map_checks_fresh_after:
  assumes IH: "\<And>d c r c'. check_and_update_hash_and_deps pf bp fs n d c = (Returned r, c')
                 \<Longrightarrow> d \<in> S \<Longrightarrow> path_exists fs (path_join bp d) \<Longrightarrow> cache_ok bp S fs c
                 \<Longrightarrow> fresh pf bp fs c' n d"
      and sc: "scan_closed bp S"
      and m: "map_checks (check_and_update_hash_and_deps pf bp fs n) ds c = (Returned rs, c')"
      and ex: "\<forall>d \<in> set ds. d \<in> S \<and> path_exists fs (path_join bp d)"
      and de: "cache_ok bp S fs c"
  shows "\<forall>d \<in> set ds. fresh pf bp fs c' n d"
  using m ex de
proof (induction ds arbitrary: c rs c')
  case Nil
  then show ?case by simp
next
  case (Cons d ds)
  from Cons.prems(1) show ?case
  proof (cases rule: map_checks_ConsE)
    case (first_raised e)
    then show ?thesis by simp
  next
    case (first_returned r c1 rr')
    then obtain rs' where rr': "rr' = Returned rs'" by (cases rr') auto
    have d1: "fresh pf bp fs c1 n d"
      using IH[OF first_returned(1)] Cons.prems(2,3) by simp
    have de1: "cache_ok bp S fs c1"
      using cache_ok_rewrites[OF Cons.prems(3) sc] check_rewrites[OF first_returned(1)] by blast
    have rest: "\<forall>d' \<in> set ds. fresh pf bp fs c' n d'"
      using Cons.IH[OF first_returned(2)[unfolded rr']] Cons.prems(2) de1 by simp
    have "fresh pf bp fs c' n d"
      using fresh_rewrites[OF d1] map_checks_check_rewrites[OF first_returned(2)] by blast
    with rest show ?thesis by simp
  qed
qed

lemma check_fresh_after:
  assumes "check_and_update_hash_and_deps pf bp fs n bn c = (Returned r, c')"
      and "bn \<in> S"
      and "path_exists fs (path_join bp bn)"
      and "cache_ok bp S fs c"
      and sc: "scan_closed bp S"
  shows "fresh pf bp fs c' n bn"
  using assms(1-4)
proof (induction n arbitrary: bn c r c')
  case 0
  then show ?case by simp
next
  case (Suc n)
  from Suc.prems(1) show ?case
  proof (cases rule: check_SucE)
    case missing
    with Suc.prems(3) show ?thesis by (simp add: path_exists_def)
  next
    case directory
    then show ?thesis by simp
  next
    case (matched content ds rr)
    then obtain rs where rr: "rr = Returned rs" by (cases rr) auto
    have ex: "\<forall>d \<in> set ds. d \<in> S \<and> path_exists fs (path_join bp d)"
      using Suc.prems(2,4) matched(2) unfolding cache_ok_def by blast
    have ds: "\<forall>d \<in> set ds. fresh pf bp fs c' n d"
      using map_checks_fresh_after[OF Suc.IH sc matched(3)[unfolded rr] ex Suc.prems(4)] by simp
    have "c' bn = c bn"
      using map_checks_check_rewrites[OF matched(3), where b = bn] matched(1,2)
      by (auto simp: rewritten_def)
    with matched(1,2) ds show ?thesis by simp
  next
    case (changed content rr)
    let ?deps = "append_cfile_deps bp fs (path_join bp bn) []"
    let ?c1 = "c(bn \<mapsto> (md5_hexdigest pf content, ?deps))"
    from changed obtain rs where rr: "rr = Returned rs" by (cases rr) auto
    have ex: "\<forall>d \<in> set ?deps. d \<in> S \<and> path_exists fs (path_join bp d)"
      using sc Suc.prems(2) unfolding scan_closed_def by (auto dest: append_cfile_deps_exist)
    have de1: "cache_ok bp S fs ?c1"
      using Suc.prems(4) ex unfolding cache_ok_def by (auto split: if_splits)
    have ds: "\<forall>d \<in> set ?deps. fresh pf bp fs c' n d"
      using map_checks_fresh_after[OF Suc.IH sc changed(3)[unfolded rr] ex de1] by simp
    have "c' bn = ?c1 bn"
      using map_checks_check_rewrites[OF changed(3), where b = bn] changed(1)
      by (auto simp: rewritten_def)
    with changed(1) ds show ?thesis by simp
  qed
qed

lemma build_cfile_cache:
  assumes "build_cfile pf compiler k fl (CFile, CFLAGS) L = F"
  shows "(\<not> endswith CFile ''.c'' \<and> srcmd5 (self (locals_of F)) = srcmd5 (self L))
       \<or> (endswith CFile ''.c''
           \<and> (srcmd5 (self (locals_of F))
                 = snd (check_and_update_hash_and_deps pf (buildpath (self L)) (fs_now L) k
                          (basename CFile) (srcmd5 (self L)))
               \<or> (\<exists>L'. F = Return False L')
                  \<and> srcmd5 (self (locals_of F))
                      = (snd (check_and_update_hash_and_deps pf (buildpath (self L)) (fs_now L) k
                          (basename CFile) (srcmd5 (self L))))(basename CFile := None)))"
  using assms
  by (auto simp: build_cfile_def Let_def locals_of_def set_srcmd5_def add_object_def
           split: prod.splits option.splits outcome.splits if_splits)

text \<open>
  C9. After a check every cache entry is either what it was before or has been
  overwritten on a digest mismatch with the digest of the file and the dependencies found
  then. When the digest of \<open>bn\<close> equals the stored one, the entry of \<open>bn\<close> is left as it
  is and the check is the walk through the dependency list stored before. One step of the
  build loop leaves the cache the check produced, or that cache without the entry of the
  unit when the step ends the build with a failure.
\<close>

theorem cache_written_only_on_mismatch:
  assumes chk: "check_and_update_hash_and_deps pf bp fs n bn c = (r, c')"
  shows "(c' b = c b \<or> rewritten pf bp fs c c' b)
       \<and> (fs (path_join bp bn) = Some (RegularFile content) \<and> c bn = Some (md5_hexdigest pf content, ds)
            \<longrightarrow> c' bn = c bn
                \<and> (\<forall>m. n = Suc m \<longrightarrow>
                      (r, c') = (case map_checks (check_and_update_hash_and_deps pf bp fs m) ds c of
                                   (Raised e, c2) \<Rightarrow> (Raised e, c2)
                                 | (Returned rs, c2) \<Rightarrow> (Returned (foldl (\<and>) True rs), c2))))
       \<and> (bp = buildpath (self L) \<and> fs = fs_now L \<and> c = srcmd5 (self L) \<and> bn = basename CFile
            \<and> endswith CFile ''.c''
            \<longrightarrow> srcmd5 (self (locals_of (build_cfile pf compiler n fl (CFile, CFLAGS) L))) = c'
                \<or> (\<exists>L'. build_cfile pf compiler n fl (CFile, CFLAGS) L = Return False L')
                   \<and> srcmd5 (self (locals_of (build_cfile pf compiler n fl (CFile, CFLAGS) L)))
                       = c'(bn := None))"
proof -
  have one: "c' b = c b \<or> rewritten pf bp fs c c' b"
    using chk by (rule check_rewrites)
  have two: "c' bn = c bn
       \<and> (\<forall>m. n = Suc m \<longrightarrow>
             (r, c') = (case map_checks (check_and_update_hash_and_deps pf bp fs m) ds c of
                          (Raised e, c2) \<Rightarrow> (Raised e, c2)
                        | (Returned rs, c2) \<Rightarrow> (Returned (foldl (\<and>) True rs), c2)))"
    if regf: "fs (path_join bp bn) = Some (RegularFile content)"
      and cb: "c bn = Some (md5_hexdigest pf content, ds)"
  proof
    show "c' bn = c bn"
      using check_rewrites[OF chk, of bn] regf cb by (auto simp: rewritten_def)
    show "\<forall>m. n = Suc m \<longrightarrow>
             (r, c') = (case map_checks (check_and_update_hash_and_deps pf bp fs m) ds c of
                          (Raised e, c2) \<Rightarrow> (Raised e, c2)
                        | (Returned rs, c2) \<Rightarrow> (Returned (foldl (\<and>) True rs), c2))"
      using chk regf cb by (auto simp: path_exists_def compute_file_md5_def)
  qed
  have three: "srcmd5 (self (locals_of (build_cfile pf compiler n fl (CFile, CFLAGS) L))) = c'
                \<or> (\<exists>L'. build_cfile pf compiler n fl (CFile, CFLAGS) L = Return False L')
                   \<and> srcmd5 (self (locals_of (build_cfile pf compiler n fl (CFile, CFLAGS) L)))
                       = c'(bn := None)"
    if "bp = buildpath (self L)" "fs = fs_now L" "c = srcmd5 (self L)" "bn = basename CFile"
       "endswith CFile ''.c''"
    using build_cfile_cache[where pf = pf and compiler = compiler and k = n and fl = fl and CFile = CFile
            and CFLAGS = CFLAGS and L = L, OF refl] chk that by auto
  show ?thesis using one two three by blast
qed

theorem cache_written_only_on_mismatch_witness:
  "rewritten (example_platform run_ok) ''/build'' example_fs Map.empty
     [''main.c'' \<mapsto> (md5_hexdigest (example_platform run_ok) (''#include '' @ [dquote] @ ''util.h'' @ [dquote]), [])] ''main.c''"
  using cache_written_only_on_mismatch
          [of "example_platform run_ok" "''/build''" example_fs "Suc 0" "''main.c''" Map.empty
              "Returned False"
              "[''main.c'' \<mapsto> (md5_hexdigest (example_platform run_ok) (''#include '' @ [dquote] @ ''util.h'' @ [dquote]), [])]"
              "''main.c''"]
  by (simp add: example_fs_def path_join_def path_exists_def compute_file_md5_def
        append_cfile_deps_def splitlines_def py_linebreak_def includes_re_match_def
        py_isspace_def dquote_def)

subsection \<open>The build loop, the link step and the fingerprint\<close>

lemma self_keep: "\<exists>c. st = st\<lparr>srcmd5 := c\<rparr>"
  by (rule exI[of _ "srcmd5 st"]) simp

lemma build_cfile_self:
  "\<exists>c. self (locals_of (build_cfile pf compiler k fl cf L)) = (self L)\<lparr>srcmd5 := c\<rparr>"
  by (cases cf)
     (auto simp: build_cfile_def Let_def locals_of_def set_srcmd5_def add_object_def self_keep
           split: prod.splits option.splits outcome.splits)

lemma build_cfile_return: "build_cfile pf compiler k fl cf L = Return b L' \<Longrightarrow> \<not> b"
  by (cases cf)
     (auto simp: build_cfile_def Let_def split: prod.splits option.splits outcome.splits if_splits)

lemma build_cfiles_self:
  "\<exists>c. self (locals_of (build_cfiles pf compiler k fl cfs L)) = (self L)\<lparr>srcmd5 := c\<rparr>"
proof (induction cfs arbitrary: L)
  case Nil
  show ?case by (simp add: locals_of_def self_keep)
next
  case (Cons cf cfs)
  obtain c where c: "self (locals_of (build_cfile pf compiler k fl cf L)) = (self L)\<lparr>srcmd5 := c\<rparr>"
    using build_cfile_self by blast
  show ?case
  proof (cases "build_cfile pf compiler k fl cf L")
    case (Continue L1)
    with c have "self L1 = (self L)\<lparr>srcmd5 := c\<rparr>" by (simp add: locals_of_def)
    moreover obtain c' where "self (locals_of (build_cfiles pf compiler k fl cfs L1)) = (self L1)\<lparr>srcmd5 := c'\<rparr>"
      using Cons.IH by blast
    ultimately have "self (locals_of (build_cfiles pf compiler k fl cfs L1)) = (self L)\<lparr>srcmd5 := c'\<rparr>"
      by simp
    with Continue show ?thesis by auto
  next
    case (Return b L1)
    with c show ?thesis by (auto simp: locals_of_def)
  next
    case (Raise e L1)
    with c show ?thesis by (auto simp: locals_of_def)
  qed
qed

lemma build_cfiles_return: "build_cfiles pf compiler k fl cfs L = Return b L' \<Longrightarrow> \<not> b"
  by (induction cfs arbitrary: L) (auto split: flow.splits dest: build_cfile_return)

lemma build_locations_self:
  "\<exists>c. self (locals_of (build_locations pf compiler k fl locs L)) = (self L)\<lparr>srcmd5 := c\<rparr>"
proof (induction locs arbitrary: L)
  case Nil
  show ?case by (simp add: locals_of_def self_keep)
next
  case (Cons loc locs)
  obtain Location cfs DoCalls where loc: "loc = (Location, cfs, DoCalls)" by (cases loc) auto
  obtain c where c: "self (locals_of (build_cfiles pf compiler k fl cfs L)) = (self L)\<lparr>srcmd5 := c\<rparr>"
    using build_cfiles_self by blast
  show ?case
  proof (cases "build_cfiles pf compiler k fl cfs L")
    case (Continue L1)
    with c have "self L1 = (self L)\<lparr>srcmd5 := c\<rparr>" by (simp add: locals_of_def)
    moreover obtain c' where "self (locals_of (build_locations pf compiler k fl locs L1)) = (self L1)\<lparr>srcmd5 := c'\<rparr>"
      using Cons.IH by blast
    ultimately have "self (locals_of (build_locations pf compiler k fl locs L1)) = (self L)\<lparr>srcmd5 := c'\<rparr>"
      by simp
    with Continue loc show ?thesis by auto
  next
    case (Return b L1)
    with c loc show ?thesis by (auto simp: locals_of_def)
  next
    case (Raise e L1)
    with c loc show ?thesis by (auto simp: locals_of_def)
  qed
qed

lemma build_locations_return: "build_locations pf compiler k fl locs L = Return b L' \<Longrightarrow> \<not> b"
proof (induction locs arbitrary: L)
  case Nil
  then show ?case by simp
next
  case (Cons loc locs)
  obtain Location cfs DoCalls where loc: "loc = (Location, cfs, DoCalls)" by (cases loc) auto
  show ?case
  proof (cases "build_cfiles pf compiler k fl cfs L")
    case (Continue L1)
    with Cons.prems loc have "build_locations pf compiler k fl locs L1 = Return b L'" by simp
    then show ?thesis by (rule Cons.IH)
  next
    case (Return b1 L1)
    with Cons.prems loc have "b1 = b" by simp
    with Return show ?thesis using build_cfiles_return by blast
  next
    case (Raise e L1)
    with Cons.prems loc show ?thesis by simp
  qed
qed

lemma link_and_fingerprint_True:
  assumes "link_and_fingerprint pf linker ldl L = (Returned True, fs', st', evs)"
      and "bin_path (self L) \<noteq> GetMD5FileName (self L)"
  shows "\<exists>content. fs' (bin_path st') = Some (RegularFile content)
           \<and> md5key st' = Some (md5_hexdigest pf content)
           \<and> fs' (GetMD5FileName st') = Some (RegularFile (md5_hexdigest pf content))
           \<and> GetBinaryMD5 fs' st' = Some (md5_hexdigest pf content)
           \<and> st' = (self L)\<lparr>md5key := Some (md5_hexdigest pf content)\<rparr>"
  using assms
  by (auto simp: link_and_fingerprint_def Let_def compute_file_md5_def write_file_def
                 GetMD5FileName_def GetBinaryMD5_def
           split: prod.splits option.splits outcome.splits if_splits fsnode.splits)

lemma build_objects_True:
  assumes "build_objects pf ctr limit cfl ldl fs st evs0 = (Returned True, fs', st', evs)"
  obtains L c where
    "build_locations pf (getCompiler ctr) limit cfl (LocationCFilesAndCFLAGS ctr)
       \<lparr>fs_now = fs, self = st, relink = \<not> path_exists fs (bin_path st),
        obns = [], objs = [], events = evs0\<rparr> = Continue L"
    "self L = st\<lparr>srcmd5 := c\<rparr>"
    "link_and_fingerprint pf (getLinker ctr) ldl L = (Returned True, fs', st', evs)"
proof -
  let ?L0 = "\<lparr>fs_now = fs, self = st, relink = \<not> path_exists fs (bin_path st),
        obns = [], objs = [], events = evs0\<rparr>"
  let ?F = "build_locations pf (getCompiler ctr) limit cfl (LocationCFilesAndCFLAGS ctr) ?L0"
  obtain c where c: "self (locals_of ?F) = (self ?L0)\<lparr>srcmd5 := c\<rparr>"
    using build_locations_self by blast
  show ?thesis
  proof (cases ?F)
    case (Continue L)
    with assms have "link_and_fingerprint pf (getLinker ctr) ldl L = (Returned True, fs', st', evs)"
      by (simp add: build_objects_def)
    moreover from c Continue have "self L = st\<lparr>srcmd5 := c\<rparr>" by (simp add: locals_of_def)
    ultimately show ?thesis using Continue that by blast
  next
    case (Return b L)
    with assms build_locations_return[OF Return] show ?thesis by (simp add: build_objects_def)
  next
    case (Raise e L)
    with assms show ?thesis by (simp add: build_objects_def)
  qed
qed

lemma build_reaches_objects:
  assumes "shlex_split pf (join '' '' (getBuilderCFLAGS pf ctr)) = Some cfl"
      and "shlex_split pf (join '' '' (getBuilderLDFLAGS pf ctr)) = Some ldl"
      and "sysroot_needed pf ctr \<longrightarrow> check_output pf sysroot_query = Output out"
  shows "build pf ctr limit fs st
           = build_objects pf ctr limit
               (if sysroot_needed pf ctr then replace_sysroot (strip out) cfl else cfl)
               (if sysroot_needed pf ctr then replace_sysroot (strip out) ldl else ldl)
               fs st (if sysroot_needed pf ctr then [CheckOutput sysroot_query] else [])"
  using assms by (simp add: build_def Let_def sysroot_needed_def)

lemma build_True:
  assumes "build pf ctr limit fs st = (Returned True, fs', st', evs)"
  obtains cfl ldl out where
    "shlex_split pf (join '' '' (getBuilderCFLAGS pf ctr)) = Some cfl"
    "shlex_split pf (join '' '' (getBuilderLDFLAGS pf ctr)) = Some ldl"
    "sysroot_needed pf ctr \<longrightarrow> check_output pf sysroot_query = Output out"
proof (cases "shlex_split pf (join '' '' (getBuilderCFLAGS pf ctr))")
  case None
  with assms show ?thesis by (simp add: build_def Let_def)
next
  case cs: (Some cfl)
  show ?thesis
  proof (cases "shlex_split pf (join '' '' (getBuilderLDFLAGS pf ctr))")
    case None
    with assms cs show ?thesis by (simp add: build_def Let_def)
  next
    case ls: (Some ldl)
    show ?thesis
    proof (cases "sysroot_needed pf ctr")
      case False
      with cs ls that show ?thesis by blast
    next
      case True
      show ?thesis
      proof (cases "check_output pf sysroot_query")
        case (Output out)
        with cs ls that show ?thesis by blast
      qed (use assms cs ls True in \<open>simp_all add: build_def Let_def sysroot_needed_def\<close>)
    qed
  qed
qed

text \<open>
  C6. After a build that returns \<open>True\<close>, whether it has linked or not, the artifact is
  a regular file, and the fingerprint in memory, the content of the fingerprint file and
  the result of \<^verbatim>\<open>GetBinaryMD5\<close> are the digest of its content. The fingerprint file is a
  sibling of the artifact, not the artifact itself.
\<close>

theorem build_fingerprint:
  assumes ok: "build pf ctr limit fs st = (Returned True, fs', st', evs)"
      and sibling: "bin_path st \<noteq> GetMD5FileName st"
  shows "\<exists>content. fs' (bin_path st') = Some (RegularFile content)
           \<and> md5key st' = Some (md5_hexdigest pf content)
           \<and> fs' (GetMD5FileName st') = Some (RegularFile (md5_hexdigest pf content))
           \<and> GetBinaryMD5 fs' st' = Some (md5_hexdigest pf content)"
proof -
  from ok obtain cfl ldl out where
    sp: "shlex_split pf (join '' '' (getBuilderCFLAGS pf ctr)) = Some cfl"
        "shlex_split pf (join '' '' (getBuilderLDFLAGS pf ctr)) = Some ldl"
        "sysroot_needed pf ctr \<longrightarrow> check_output pf sysroot_query = Output out"
    by (rule build_True)
  from ok have "build_objects pf ctr limit
               (if sysroot_needed pf ctr then replace_sysroot (strip out) cfl else cfl)
               (if sysroot_needed pf ctr then replace_sysroot (strip out) ldl else ldl)
               fs st (if sysroot_needed pf ctr then [CheckOutput sysroot_query] else [])
          = (Returned True, fs', st', evs)"
    unfolding build_reaches_objects[OF sp] .
  then obtain L c where L: "self L = st\<lparr>srcmd5 := c\<rparr>"
    and lf: "link_and_fingerprint pf (getLinker ctr)
               (if sysroot_needed pf ctr then replace_sysroot (strip out) ldl else ldl) L
             = (Returned True, fs', st', evs)"
    by (rule build_objects_True)
  from L sibling have "bin_path (self L) \<noteq> GetMD5FileName (self L)"
    by (simp add: GetMD5FileName_def)
  from link_and_fingerprint_True[OF lf this] show ?thesis by blast
qed

theorem build_fingerprint_witness:
  "\<exists>content. fst (snd example_build) (bin_path (fst (snd (snd example_build)))) = Some (RegularFile content)
     \<and> md5key (fst (snd (snd example_build))) = Some (md5_hexdigest (example_platform run_ok) content)
     \<and> fst (snd example_build) (GetMD5FileName (fst (snd (snd example_build))))
         = Some (RegularFile (md5_hexdigest (example_platform run_ok) content))
     \<and> GetBinaryMD5 (fst (snd example_build)) (fst (snd (snd example_build)))
         = Some (md5_hexdigest (example_platform run_ok) content)"
proof -
  have "fst example_build = Returned True" by code_simp
  then have "build (example_platform run_ok) (example_controller [(''/build/main.c'', '''')]) 10
                     example_fs (toolchain_init (example_controller [(''/build/main.c'', '''')]))
             = (Returned True, fst (snd example_build), fst (snd (snd example_build)),
                snd (snd (snd example_build)))"
    unfolding example_build_def by (metis prod.collapse)
  moreover have "bin_path (toolchain_init (example_controller [(''/build/main.c'', '''')]))
                   \<noteq> GetMD5FileName (toolchain_init (example_controller [(''/build/main.c'', '''')]))"
    by code_simp
  ultimately show ?thesis by (rule build_fingerprint)
qed

lemma build_cfile_matched:
  assumes m: "endswith (fst cf) ''.c'' \<longrightarrow>
              fst (check_and_update_hash_and_deps pf (buildpath (self L)) (fs_now L) k
                     (basename (fst cf)) (srcmd5 (self L))) = Returned True"
  shows "build_cfile pf compiler k fl cf L
           = Continue (L\<lparr>obns := obns L @ object_name_of cf, objs := objs L @ object_of cf\<rparr>)"
proof (cases "endswith (fst cf) ''.c''")
  case True
  obtain c' where chk: "check_and_update_hash_and_deps pf (buildpath (self L)) (fs_now L) k
                     (basename (fst cf)) (srcmd5 (self L)) = (Returned True, c')"
    using m True by (metis prod.collapse)
  then have "c' = srcmd5 (self L)" by (rule check_matched_unchanged)
  with chk True show ?thesis
    by (cases cf) (simp add: build_cfile_def Let_def set_srcmd5_def add_object_def
                      object_of_def object_name_of_def)
next
  case False
  then show ?thesis
    by (cases cf) (simp add: build_cfile_def add_object_def object_of_def object_name_of_def)
qed

lemma build_cfiles_matched:
  assumes "\<forall>cf \<in> set cfs. endswith (fst cf) ''.c'' \<longrightarrow>
              fst (check_and_update_hash_and_deps pf (buildpath (self L)) (fs_now L) k
                     (basename (fst cf)) (srcmd5 (self L))) = Returned True"
  shows "build_cfiles pf compiler k fl cfs L
           = Continue (L\<lparr>obns := obns L @ concat (map object_name_of cfs),
                         objs := objs L @ concat (map object_of cfs)\<rparr>)"
  using assms
proof (induction cfs arbitrary: L)
  case Nil
  then show ?case by simp
next
  case (Cons cf cfs)
  let ?L1 = "L\<lparr>obns := obns L @ object_name_of cf, objs := objs L @ object_of cf\<rparr>"
  have step: "build_cfile pf compiler k fl cf L = Continue ?L1"
    using Cons.prems by (intro build_cfile_matched) simp
  have "build_cfiles pf compiler k fl cfs ?L1
           = Continue (?L1\<lparr>obns := obns ?L1 @ concat (map object_name_of cfs),
                         objs := objs ?L1 @ concat (map object_of cfs)\<rparr>)"
    using Cons.prems by (intro Cons.IH) simp
  with step show ?case by simp
qed

lemma build_locations_matched:
  assumes "\<forall>cf \<in> set (concat (map (\<lambda>loc. fst (snd loc)) locs)). endswith (fst cf) ''.c'' \<longrightarrow>
              fst (check_and_update_hash_and_deps pf (buildpath (self L)) (fs_now L) k
                     (basename (fst cf)) (srcmd5 (self L))) = Returned True"
  shows "build_locations pf compiler k fl locs L
           = Continue (L\<lparr>obns := obns L @ concat (map object_name_of (concat (map (\<lambda>loc. fst (snd loc)) locs))),
                         objs := objs L @ concat (map object_of (concat (map (\<lambda>loc. fst (snd loc)) locs)))\<rparr>)"
  using assms
proof (induction locs arbitrary: L)
  case Nil
  then show ?case by simp
next
  case (Cons loc locs)
  obtain Location cfs DoCalls where loc: "loc = (Location, cfs, DoCalls)" by (cases loc) auto
  let ?L1 = "L\<lparr>obns := obns L @ concat (map object_name_of cfs),
               objs := objs L @ concat (map object_of cfs)\<rparr>"
  have step: "build_cfiles pf compiler k fl cfs L = Continue ?L1"
    using Cons.prems loc by (intro build_cfiles_matched) simp
  have "build_locations pf compiler k fl locs ?L1
           = Continue (?L1\<lparr>obns := obns ?L1 @ concat (map object_name_of (concat (map (\<lambda>loc. fst (snd loc)) locs))),
                         objs := objs ?L1 @ concat (map object_of (concat (map (\<lambda>loc. fst (snd loc)) locs)))\<rparr>)"
    using Cons.prems by (intro Cons.IH) simp
  with step loc show ?case by simp
qed

lemma link_and_fingerprint_events:
  "snd (snd (snd (link_and_fingerprint pf linker ldl L)))
     = events L @ (if relink L then [Spin ([linker] @ objs L @ [''-o'', bin_path (self L)] @ ldl)] else [])"
  by (auto simp: link_and_fingerprint_def Let_def split: prod.splits outcome.splits option.splits)

lemma build_objects_matched:
  assumes "\<forall>cf \<in> set (project_cfiles ctr). endswith (fst cf) ''.c'' \<longrightarrow>
              fst (check_and_update_hash_and_deps pf (buildpath st) fs limit
                     (basename (fst cf)) (srcmd5 st)) = Returned True"
  shows "build_objects pf ctr limit cfl ldl fs st evs0
           = link_and_fingerprint pf (getLinker ctr) ldl
               \<lparr>fs_now = fs, self = st, relink = \<not> path_exists fs (bin_path st),
                obns = concat (map object_name_of (project_cfiles ctr)),
                objs = project_objects ctr, events = evs0\<rparr>"
proof -
  let ?L0 = "\<lparr>fs_now = fs, self = st, relink = \<not> path_exists fs (bin_path st),
        obns = [], objs = [], events = evs0\<rparr>"
  have "build_locations pf (getCompiler ctr) limit cfl (LocationCFilesAndCFLAGS ctr) ?L0
        = Continue (?L0\<lparr>obns := obns ?L0 @ concat (map object_name_of (project_cfiles ctr)),
                         objs := objs ?L0 @ project_objects ctr\<rparr>)"
    unfolding project_cfiles_def project_objects_def
    using assms by (intro build_locations_matched) (simp add: project_cfiles_def)
  then show ?thesis by (simp add: build_objects_def)
qed

text \<open>
  C7. \<^verbatim>\<open>relink\<close> starts as the negation of "the artifact exists". When the check of
  every compilable unit reports a match, the only processes \<^verbatim>\<open>build\<close> starts are the
  sysroot query, if the flags need it, and then, exactly when the artifact was absent at
  the start, the linker with the object files of the project.
\<close>

theorem relink_iff_artifact_absent:
  assumes cs: "shlex_split pf (join '' '' (getBuilderCFLAGS pf ctr)) = Some cfl"
      and ls: "shlex_split pf (join '' '' (getBuilderLDFLAGS pf ctr)) = Some ldl"
      and sr: "sysroot_needed pf ctr \<longrightarrow> check_output pf sysroot_query = Output out"
      and matched: "\<forall>cf \<in> set (project_cfiles ctr). endswith (fst cf) ''.c'' \<longrightarrow>
              fst (check_and_update_hash_and_deps pf (buildpath st) fs limit
                     (basename (fst cf)) (srcmd5 st)) = Returned True"
  shows "snd (snd (snd (build pf ctr limit fs st)))
           = (if sysroot_needed pf ctr then [CheckOutput sysroot_query] else [])
             @ (if path_exists fs (bin_path st) then []
                else [Spin ([getLinker ctr] @ project_objects ctr @ [''-o'', bin_path st]
                            @ (if sysroot_needed pf ctr then replace_sysroot (strip out) ldl else ldl))])"
  unfolding build_reaches_objects[OF cs ls sr] build_objects_matched[OF matched]
            link_and_fingerprint_events
  by simp

theorem relink_iff_artifact_absent_witness:
  "snd (snd (snd (build (example_platform run_ok) (example_controller [(''/build/main.c'', '''')]) 10
                    (example_fs_after(''/build/plc.so'' := None)) example_after)))
     = [Spin [''gcc'', ''/build/main.o'', ''-o'', ''/build/plc.so'', ''-shared'']]
   \<and> snd (snd (snd (build (example_platform run_ok) (example_controller [(''/build/main.c'', '''')]) 10
                    example_fs_after example_after)))
     = []"
proof -
  let ?pf = "example_platform run_ok"
  let ?ctr = "example_controller [(''/build/main.c'', '''')]"
  let ?fs = "example_fs_after(''/build/plc.so'' := None)"
  have cs: "shlex_split ?pf (join '' '' (getBuilderCFLAGS ?pf ?ctr)) = Some [''-fPIC'']"
    by code_simp
  have ls: "shlex_split ?pf (join '' '' (getBuilderLDFLAGS ?pf ?ctr)) = Some [''-shared'']"
    by code_simp
  have ns: "\<not> sysroot_needed ?pf ?ctr"
    by code_simp
  then have sr: "sysroot_needed ?pf ?ctr \<longrightarrow> check_output ?pf sysroot_query = Output []"
    by simp
  have m1: "\<forall>cf \<in> set (project_cfiles ?ctr). endswith (fst cf) ''.c'' \<longrightarrow>
              fst (check_and_update_hash_and_deps ?pf (buildpath example_after) ?fs 10
                     (basename (fst cf)) (srcmd5 example_after)) = Returned True"
    by code_simp
  have m2: "\<forall>cf \<in> set (project_cfiles ?ctr). endswith (fst cf) ''.c'' \<longrightarrow>
              fst (check_and_update_hash_and_deps ?pf (buildpath example_after) example_fs_after 10
                     (basename (fst cf)) (srcmd5 example_after)) = Returned True"
    by code_simp
  have v1: "\<not> path_exists ?fs (bin_path example_after)" by code_simp
  have v2: "path_exists example_fs_after (bin_path example_after)" by code_simp
  have v3: "[getLinker ?ctr] @ project_objects ?ctr @ [''-o'', bin_path example_after] @ [''-shared'']
            = [''gcc'', ''/build/main.o'', ''-o'', ''/build/plc.so'', ''-shared'']"
    by code_simp
  show ?thesis
    using relink_iff_artifact_absent[OF cs ls sr m1] relink_iff_artifact_absent[OF cs ls sr m2]
          ns v1 v2 v3
    by simp
qed

subsection \<open>Building twice\<close>

lemma fresh_agree:
  assumes "fresh pf bp fs c n bn" and "bn \<in> S" and "cache_ok bp S fs c"
      and "\<forall>b \<in> S. fs' (path_join bp b) = fs (path_join bp b)"
  shows "fresh pf bp fs' c n bn"
  using assms(1,2)
proof (induction n arbitrary: bn)
  case 0
  then show ?case by simp
next
  case (Suc n)
  from Suc.prems obtain content ds where
    regf: "fs (path_join bp bn) = Some (RegularFile content)" and
    cb: "c bn = Some (md5_hexdigest pf content, ds)" and
    ds: "\<forall>d \<in> set ds. fresh pf bp fs c n d"
    by (auto split: option.splits fsnode.splits)
  have "\<forall>d \<in> set ds. d \<in> S" using assms(3) Suc.prems(2) cb unfolding cache_ok_def by blast
  with ds Suc.IH have "\<forall>d \<in> set ds. fresh pf bp fs' c n d" by blast
  moreover have "fs' (path_join bp bn) = Some (RegularFile content)"
    using assms(4) Suc.prems(2) regf by simp
  ultimately show ?case using cb by simp
qed

lemma cache_ok_agree:
  assumes "cache_ok bp S fs c" and "\<forall>b \<in> S. fs' (path_join bp b) = fs (path_join bp b)"
  shows "cache_ok bp S fs' c"
  using assms unfolding cache_ok_def path_exists_def by metis

lemma compiled_units_single:
  "compiled_units [cf] = (if endswith (fst cf) ''.c'' then {basename (fst cf)} else {})"
  by (cases cf) (auto simp: compiled_units_def)

lemma untouchedD:
  assumes "untouched pf bp S fs0 A" and "argv \<in> A"
      and "\<forall>b \<in> S. fs (path_join bp b) = fs0 (path_join bp b)"
  shows "\<forall>b \<in> S. snd (spin pf argv fs) (path_join bp b) = fs (path_join bp b)"
proof -
  from assms(1,2) have "\<forall>fs. (\<forall>b \<in> S. fs (path_join bp b) = fs0 (path_join bp b))
        \<longrightarrow> (\<forall>b \<in> S. snd (spin pf argv fs) (path_join bp b) = fs (path_join bp b))"
    unfolding untouched_def by (rule bspec)
  with assms(3) show ?thesis by (elim allE[of _ fs]) simp
qed

lemma assembled_flags_build:
  assumes "assembled_flags pf ctr = Some (cfl, ldl)"
  shows "build pf ctr limit fs st
           = build_objects pf ctr limit cfl ldl fs st
               (if sysroot_needed pf ctr then [CheckOutput sysroot_query] else [])"
  using assms
  by (auto simp: assembled_flags_def build_def Let_def sysroot_needed_def
           split: option.splits query_result.splits if_splits)

lemma build_True_flags:
  assumes "build pf ctr limit fs st = (Returned True, fs', st', evs)"
  obtains cfl ldl where "assembled_flags pf ctr = Some (cfl, ldl)"
proof -
  from assms obtain cfl ldl out where
    "shlex_split pf (join '' '' (getBuilderCFLAGS pf ctr)) = Some cfl"
    "shlex_split pf (join '' '' (getBuilderLDFLAGS pf ctr)) = Some ldl"
    "sysroot_needed pf ctr \<longrightarrow> check_output pf sysroot_query = Output out"
    by (rule build_True)
  then have "\<exists>flags. assembled_flags pf ctr = Some flags"
    by (simp add: assembled_flags_def)
  then show ?thesis using that by auto
qed

lemma build_cfile_c_ContinueE:
  assumes "build_cfile pf compiler k fl cf L = Continue L'" and "endswith (fst cf) ''.c''"
  obtains r c1 where
    "check_and_update_hash_and_deps pf (buildpath (self L)) (fs_now L) k (basename (fst cf))
       (srcmd5 (self L)) = (Returned r, c1)"
    "self L' = (self L)\<lparr>srcmd5 := c1\<rparr>"
    "fs_now L' = fs_now L
     \<or> (\<exists>unit_flags. shlex_split pf (snd cf) = Some unit_flags
           \<and> fs_now L' = snd (spin pf (compile_command compiler fl (fst cf) unit_flags) (fs_now L)))"
proof -
  obtain CFile CFLAGS where cf: "cf = (CFile, CFLAGS)" by (cases cf)
  obtain o1 c1 where chk: "check_and_update_hash_and_deps pf (buildpath (self L)) (fs_now L) k
       (basename CFile) (srcmd5 (self L)) = (o1, c1)"
    by (cases "check_and_update_hash_and_deps pf (buildpath (self L)) (fs_now L) k
       (basename CFile) (srcmd5 (self L))")
  show ?thesis
  proof (cases o1)
    case (Raised e)
    with assms cf chk show ?thesis by (simp add: build_cfile_def Let_def)
  next
    case (Returned r)
    have "self L' = (self L)\<lparr>srcmd5 := c1\<rparr>
          \<and> (fs_now L' = fs_now L
              \<or> (\<exists>unit_flags. shlex_split pf CFLAGS = Some unit_flags
                    \<and> fs_now L' = snd (spin pf (compile_command compiler fl CFile unit_flags) (fs_now L))))"
    proof (cases r)
      case True
      with assms cf chk Returned show ?thesis
        by (auto simp: build_cfile_def Let_def set_srcmd5_def add_object_def)
    next
      case False
      from assms cf chk Returned False obtain unit_flags where
        uf: "shlex_split pf CFLAGS = Some unit_flags"
        by (cases "shlex_split pf CFLAGS") (simp_all add: build_cfile_def Let_def)
      let ?argv = "[compiler, ''-c'', CFile, ''-o'', splitext_root CFile @ ''.o'', ''-O2'']
                   @ fl @ unit_flags"
      obtain status fs1 where sp: "spin pf ?argv (fs_now L) = (status, fs1)"
        by (cases "spin pf ?argv (fs_now L)")
      from assms cf chk Returned False uf sp have "status = 0"
        by (auto simp: build_cfile_def Let_def split: option.splits if_splits)
      with assms cf chk Returned False uf sp have
        "self L' = (self L)\<lparr>srcmd5 := c1\<rparr>" "fs_now L' = fs1"
        by (auto simp: build_cfile_def Let_def set_srcmd5_def add_object_def)
      moreover from sp have "fs1 = snd (spin pf (compile_command compiler fl CFile unit_flags) (fs_now L))"
        by (simp add: compile_command_def)
      ultimately show ?thesis using uf by blast
    qed
    with chk Returned cf that show ?thesis by auto
  qed
qed

lemma build_cfile_other_Continue:
  assumes "build_cfile pf compiler k fl cf L = Continue L'" and "\<not> endswith (fst cf) ''.c''"
  shows "self L' = self L \<and> fs_now L' = fs_now L"
  using assms by (cases cf) (auto simp: build_cfile_def add_object_def split: if_splits)

lemma build_cfile_objs:
  assumes "build_cfile pf compiler k fl cf L = Continue L'"
  shows "objs L' = objs L @ object_of cf"
proof (cases "endswith (fst cf) ''.c''")
  case False
  with assms show ?thesis
    by (cases cf) (auto simp: build_cfile_def add_object_def object_of_def split: if_splits)
next
  case True
  obtain CFile CFLAGS where cf: "cf = (CFile, CFLAGS)" by (cases cf)
  obtain o1 c1 where chk: "check_and_update_hash_and_deps pf (buildpath (self L)) (fs_now L) k
       (basename CFile) (srcmd5 (self L)) = (o1, c1)"
    by (cases "check_and_update_hash_and_deps pf (buildpath (self L)) (fs_now L) k
       (basename CFile) (srcmd5 (self L))")
  from assms True cf chk show ?thesis
    by (auto simp: build_cfile_def Let_def set_srcmd5_def add_object_def object_of_def
             split: outcome.splits option.splits prod.splits if_splits)
qed

lemma build_cfiles_objs:
  "build_cfiles pf compiler k fl cfs L = Continue L'
   \<Longrightarrow> objs L' = objs L @ concat (map object_of cfs)"
proof (induction cfs arbitrary: L)
  case Nil
  then show ?case by simp
next
  case (Cons cf cfs)
  from Cons.prems obtain L1 where
    step: "build_cfile pf compiler k fl cf L = Continue L1" and
    rest: "build_cfiles pf compiler k fl cfs L1 = Continue L'"
    by (auto split: flow.splits)
  from build_cfile_objs[OF step] Cons.IH[OF rest] show ?case by simp
qed

lemma build_locations_objs:
  "build_locations pf compiler k fl locs L = Continue L'
   \<Longrightarrow> objs L' = objs L @ concat (map object_of (concat (map (\<lambda>loc. fst (snd loc)) locs)))"
proof (induction locs arbitrary: L)
  case Nil
  then show ?case by simp
next
  case (Cons loc locs)
  obtain Location cfs DoCalls where loc: "loc = (Location, cfs, DoCalls)" by (cases loc) auto
  from Cons.prems loc obtain L1 where
    inner: "build_cfiles pf compiler k fl cfs L = Continue L1" and
    rest: "build_locations pf compiler k fl locs L1 = Continue L'"
    by (auto split: flow.splits)
  from build_cfiles_objs[OF inner] Cons.IH[OF rest] loc show ?case by simp
qed

lemma build_cfile_inv:
  assumes inv: "build_inv pf bp S k fs0 Done L"
      and ut: "untouched pf bp S fs0 A"
      and cmd: "endswith (fst cf) ''.c'' \<longrightarrow>
                  (\<forall>unit_flags. shlex_split pf (snd cf) = Some unit_flags
                     \<longrightarrow> compile_command compiler fl (fst cf) unit_flags \<in> A)"
      and sc: "scan_closed bp S"
      and unit: "endswith (fst cf) ''.c'' \<longrightarrow>
                   basename (fst cf) \<in> S \<and> path_exists fs0 (path_join bp (basename (fst cf)))"
      and step: "build_cfile pf compiler k fl cf L = Continue L'"
  shows "build_inv pf bp S k fs0 (Done \<union> compiled_units [cf]) L'"
proof (cases "endswith (fst cf) ''.c''")
  case False
  with build_cfile_other_Continue[OF step] inv show ?thesis
    by (simp add: build_inv_def compiled_units_single)
next
  case True
  let ?bn = "basename (fst cf)"
  let ?fs = "fs_now L"
  let ?c = "srcmd5 (self L)"
  from inv have bp: "buildpath (self L) = bp"
    and same: "\<forall>b \<in> S. ?fs (path_join bp b) = fs0 (path_join bp b)"
    and ok: "cache_ok bp S ?fs ?c"
    and seen: "\<forall>u \<in> Done. u \<in> S \<and> fresh pf bp ?fs ?c k u"
    by (simp_all add: build_inv_def)
  from unit True have bnS: "?bn \<in> S" and ex0: "path_exists fs0 (path_join bp ?bn)" by simp_all
  from ex0 same bnS have ex: "path_exists ?fs (path_join bp ?bn)" by (simp add: path_exists_def)
  from step True obtain r c1 where
    chk: "check_and_update_hash_and_deps pf bp ?fs k ?bn ?c = (Returned r, c1)" and
    self': "self L' = (self L)\<lparr>srcmd5 := c1\<rparr>" and
    fs': "fs_now L' = ?fs
          \<or> (\<exists>unit_flags. shlex_split pf (snd cf) = Some unit_flags
                \<and> fs_now L' = snd (spin pf (compile_command compiler fl (fst cf) unit_flags) ?fs))"
    unfolding bp[symmetric] by (rule build_cfile_c_ContinueE)
  have rw: "\<And>b. c1 b = ?c b \<or> rewritten pf bp ?fs ?c c1 b"
    using check_rewrites[OF chk] by simp
  have ok1: "cache_ok bp S ?fs c1" by (rule cache_ok_rewrites[OF ok sc rw])
  have new: "fresh pf bp ?fs c1 k ?bn" by (rule check_fresh_after[OF chk bnS ex ok sc])
  have old: "\<forall>u \<in> Done. fresh pf bp ?fs c1 k u" using seen fresh_rewrites rw by blast
  have agree: "\<forall>b \<in> S. fs_now L' (path_join bp b) = ?fs (path_join bp b)"
    using fs'
  proof
    assume "fs_now L' = ?fs"
    then show ?thesis by simp
  next
    assume "\<exists>unit_flags. shlex_split pf (snd cf) = Some unit_flags
                \<and> fs_now L' = snd (spin pf (compile_command compiler fl (fst cf) unit_flags) ?fs)"
    then obtain unit_flags where uf: "shlex_split pf (snd cf) = Some unit_flags"
      and run: "fs_now L' = snd (spin pf (compile_command compiler fl (fst cf) unit_flags) ?fs)"
      by blast
    from cmd True uf have "compile_command compiler fl (fst cf) unit_flags \<in> A" by blast
    from untouchedD[OF ut this same] run show ?thesis by simp
  qed
  have "cache_ok bp S (fs_now L') c1" by (rule cache_ok_agree[OF ok1 agree])
  moreover have "\<forall>u \<in> Done \<union> {?bn}. u \<in> S \<and> fresh pf bp (fs_now L') c1 k u"
    using new old seen bnS fresh_agree[OF _ _ ok1 agree] by blast
  moreover have "\<forall>b \<in> S. fs_now L' (path_join bp b) = fs0 (path_join bp b)"
    using agree same by simp
  moreover have "compiled_units [cf] = {?bn}" using True by (simp add: compiled_units_single)
  ultimately show ?thesis using self' bp by (simp add: build_inv_def)
qed

lemma compiled_units_Cons: "compiled_units (cf # cfs) = compiled_units [cf] \<union> compiled_units cfs"
  by (auto simp: compiled_units_def)

lemma compiled_units_append: "compiled_units (xs @ ys) = compiled_units xs \<union> compiled_units ys"
  by (auto simp: compiled_units_def)

lemma build_cfiles_inv:
  assumes ut: "untouched pf bp S fs0 A"
      and sc: "scan_closed bp S"
      and inv: "build_inv pf bp S k fs0 Done L"
      and units: "\<forall>cf \<in> set cfs. endswith (fst cf) ''.c'' \<longrightarrow>
                   basename (fst cf) \<in> S \<and> path_exists fs0 (path_join bp (basename (fst cf)))
                   \<and> (\<forall>unit_flags. shlex_split pf (snd cf) = Some unit_flags
                         \<longrightarrow> compile_command compiler fl (fst cf) unit_flags \<in> A)"
      and loop: "build_cfiles pf compiler k fl cfs L = Continue L'"
  shows "build_inv pf bp S k fs0 (Done \<union> compiled_units cfs) L'"
  using inv units loop
proof (induction cfs arbitrary: Done L)
  case Nil
  then show ?case by (simp add: compiled_units_def)
next
  case (Cons cf cfs)
  from Cons.prems(3) obtain L1 where
    step: "build_cfile pf compiler k fl cf L = Continue L1" and
    rest: "build_cfiles pf compiler k fl cfs L1 = Continue L'"
    by (auto split: flow.splits)
  have "build_inv pf bp S k fs0 (Done \<union> compiled_units [cf]) L1"
    using Cons.prems(2) by (intro build_cfile_inv[OF Cons.prems(1) ut _ sc _ step]) simp_all
  then have "build_inv pf bp S k fs0 ((Done \<union> compiled_units [cf]) \<union> compiled_units cfs) L'"
    using Cons.prems(2) rest by (intro Cons.IH) auto
  then show ?case by (simp add: compiled_units_Cons[of cf cfs] Un_assoc)
qed

lemma build_locations_inv:
  assumes ut: "untouched pf bp S fs0 A"
      and sc: "scan_closed bp S"
      and inv: "build_inv pf bp S k fs0 Done L"
      and units: "\<forall>cf \<in> set (concat (map (\<lambda>loc. fst (snd loc)) locs)). endswith (fst cf) ''.c'' \<longrightarrow>
                   basename (fst cf) \<in> S \<and> path_exists fs0 (path_join bp (basename (fst cf)))
                   \<and> (\<forall>unit_flags. shlex_split pf (snd cf) = Some unit_flags
                         \<longrightarrow> compile_command compiler fl (fst cf) unit_flags \<in> A)"
      and loop: "build_locations pf compiler k fl locs L = Continue L'"
  shows "build_inv pf bp S k fs0 (Done \<union> compiled_units (concat (map (\<lambda>loc. fst (snd loc)) locs))) L'"
  using inv units loop
proof (induction locs arbitrary: Done L)
  case Nil
  then show ?case by (simp add: compiled_units_def)
next
  case (Cons loc locs)
  obtain Location cfs DoCalls where loc: "loc = (Location, cfs, DoCalls)" by (cases loc) auto
  from Cons.prems(3) loc obtain L1 where
    inner: "build_cfiles pf compiler k fl cfs L = Continue L1" and
    rest: "build_locations pf compiler k fl locs L1 = Continue L'"
    by (auto split: flow.splits)
  have "build_inv pf bp S k fs0 (Done \<union> compiled_units cfs) L1"
    using Cons.prems(2) loc by (intro build_cfiles_inv[OF ut sc Cons.prems(1) _ inner]) simp
  then have "build_inv pf bp S k fs0 ((Done \<union> compiled_units cfs)
               \<union> compiled_units (concat (map (\<lambda>loc. fst (snd loc)) locs))) L'"
    using Cons.prems(2) rest by (intro Cons.IH) auto
  then show ?case using loc by (simp add: compiled_units_append Un_assoc)
qed

lemma link_and_fingerprint_agree:
  assumes ut: "untouched pf bp S fs0 A"
      and same: "\<forall>b \<in> S. fs_now L (path_join bp b) = fs0 (path_join bp b)"
      and cmd: "link_command linker (objs L) (bin_path (self L)) ldl \<in> A"
      and bp: "buildpath (self L) = bp"
      and fp: "\<forall>b \<in> S. path_join bp b \<noteq> GetMD5FileName (self L)"
      and lf: "link_and_fingerprint pf linker ldl L = (r, fs', st', ev)"
  shows "\<forall>b \<in> S. fs' (path_join bp b) = fs_now L (path_join bp b)"
proof -
  let ?argv = "[linker] @ objs L @ [''-o'', bin_path (self L)] @ ldl"
  obtain status fs1 where sp:
    "(if relink L then spin pf ?argv (fs_now L) else (0, fs_now L)) = (status, fs1)"
    by (cases "if relink L then spin pf ?argv (fs_now L) else (0, fs_now L)")
  have a1: "\<forall>b \<in> S. fs1 (path_join bp b) = fs_now L (path_join bp b)"
  proof (cases "relink L")
    case True
    with sp have "fs1 = snd (spin pf (link_command linker (objs L) (bin_path (self L)) ldl) (fs_now L))"
      by (simp add: link_command_def)
    with untouchedD[OF ut cmd same] show ?thesis by simp
  next
    case False
    with sp show ?thesis by simp
  qed
  have "fs' = fs1 \<or> (\<exists>key. fs' = fs1(GetMD5FileName (self L) \<mapsto> RegularFile key))"
    using lf sp
    by (auto simp: link_and_fingerprint_def Let_def write_file_def GetMD5FileName_def
             split: outcome.splits option.splits if_splits)
  with a1 fp show ?thesis by auto
qed

lemma md5key_keep: "md5key st = Some key \<Longrightarrow> st\<lparr>md5key := Some key\<rparr> = st"
  by (cases st) simp

lemma link_and_fingerprint_skip:
  assumes "\<not> relink L"
      and "fs_now L (bin_path (self L)) = Some (RegularFile content)"
      and "md5key (self L) = Some (md5_hexdigest pf content)"
      and "fs_now L (GetMD5FileName (self L)) \<noteq> Some Directory"
  shows "link_and_fingerprint pf linker ldl L
           = (Returned True,
              (fs_now L)(GetMD5FileName (self L) \<mapsto> RegularFile (md5_hexdigest pf content)),
              self L, events L)"
  using assms
  by (simp add: link_and_fingerprint_def Let_def compute_file_md5_def write_file_def
                md5key_keep GetMD5FileName_def)

text \<open>
  C5 as the claim states it fails. The unit \<^verbatim>\<open>/build/src/main.c\<close> is checked under its
  base name in the build directory, where no such file is, so every check reports a
  change: the first build succeeds, the source is not touched, and the second build
  compiles and links again.
\<close>

theorem second_build_recompiles_counterexample:
  "fst nested_first = Returned True
   \<and> fst (snd nested_first) ''/build/src/main.c'' = Some (RegularFile ''int x;'')
   \<and> fst nested_second = Returned True
   \<and> snd (snd (snd nested_second))
       = [Spin [''gcc'', ''-c'', ''/build/src/main.c'', ''-o'', ''/build/src/main.o'', ''-O2'', ''-fPIC''],
          Spin [''gcc'', ''/build/src/main.o'', ''-o'', ''/build/plc.so'', ''-shared'']]"
  by code_simp

text \<open>
  C5, amended. Let \<open>S\<close> be the names of the sources: every compilable unit is a file in
  the build directory under its base name and its name is in \<open>S\<close>, scanning and the
  cache lead from \<open>S\<close> to existing files in \<open>S\<close> only, the command lines that \<^verbatim>\<open>build\<close>
  hands to the process runner change no file of \<open>S\<close>, and the fingerprint file is neither
  a source nor the artifact. Let a build return \<open>True\<close>, and let the file system
  change afterwards in any way that leaves the files of \<open>S\<close> and the artifact as they are
  and puts no directory in the place of the fingerprint file. Then a second build
  returns \<open>True\<close>, starts no compiler and no linker (the sysroot query is the one process
  it may start), leaves the toolchain, and so the fingerprint in memory, as it is, and
  writes the same fingerprint to the fingerprint file.
\<close>

theorem second_build_does_nothing:
  assumes first: "build pf ctr limit fs st = (Returned True, fs1, st1, evs1)"
      and units: "\<forall>cf \<in> set (project_cfiles ctr). endswith (fst cf) ''.c'' \<longrightarrow>
                    basename (fst cf) \<in> S
                    \<and> path_exists fs (path_join (buildpath st) (basename (fst cf)))"
      and sc: "scan_closed (buildpath st) S"
      and ok: "cache_ok (buildpath st) S fs (srcmd5 st)"
      and ut: "\<forall>cfl ldl. assembled_flags pf ctr = Some (cfl, ldl) \<longrightarrow>
                 untouched pf (buildpath st) S fs (build_commands pf ctr st cfl ldl)"
      and fp: "\<forall>b \<in> S. path_join (buildpath st) b \<noteq> GetMD5FileName st"
      and sibling: "bin_path st \<noteq> GetMD5FileName st"
      and later: "\<forall>b \<in> S. fs2 (path_join (buildpath st) b) = fs1 (path_join (buildpath st) b)"
      and artifact: "fs2 (bin_path st) = fs1 (bin_path st)"
      and nodir: "fs2 (GetMD5FileName st) \<noteq> Some Directory"
  shows "\<exists>key. md5key st1 = Some key
           \<and> build pf ctr limit fs2 st1
               = (Returned True, fs2(GetMD5FileName st \<mapsto> RegularFile key), st1,
                  if sysroot_needed pf ctr then [CheckOutput sysroot_query] else [])"
proof -
  let ?bp = "buildpath st"
  from first obtain cfl ldl where af: "assembled_flags pf ctr = Some (cfl, ldl)"
    by (rule build_True_flags)
  let ?A = "build_commands pf ctr st cfl ldl"
  from ut af have utA: "untouched pf ?bp S fs ?A" by blast
  let ?evs0 = "if sysroot_needed pf ctr then [CheckOutput sysroot_query] else []"
  let ?L0 = "\<lparr>fs_now = fs, self = st, relink = \<not> path_exists fs (bin_path st),
              obns = [], objs = [], events = ?evs0\<rparr>"
  from first have "build_objects pf ctr limit cfl ldl fs st ?evs0 = (Returned True, fs1, st1, evs1)"
    unfolding assembled_flags_build[OF af] .
  then obtain L c where
    loop: "build_locations pf (getCompiler ctr) limit cfl (LocationCFilesAndCFLAGS ctr) ?L0 = Continue L"
    and selfL: "self L = st\<lparr>srcmd5 := c\<rparr>"
    and lf: "link_and_fingerprint pf (getLinker ctr) ldl L = (Returned True, fs1, st1, evs1)"
    by (rule build_objects_True)
  have inv0: "build_inv pf ?bp S limit fs {} ?L0"
    using ok by (simp add: build_inv_def)
  have cmds: "\<forall>cf \<in> set (project_cfiles ctr). endswith (fst cf) ''.c'' \<longrightarrow>
                (\<forall>unit_flags. shlex_split pf (snd cf) = Some unit_flags
                   \<longrightarrow> compile_command (getCompiler ctr) cfl (fst cf) unit_flags \<in> ?A)"
    unfolding build_commands_def by blast
  have "build_inv pf ?bp S limit fs ({} \<union> compiled_units (concat (map (\<lambda>loc. fst (snd loc)) (LocationCFilesAndCFLAGS ctr)))) L"
    using units cmds
    by (intro build_locations_inv[OF utA sc inv0 _ loop]) (simp add: project_cfiles_def)
  then have inv: "build_inv pf ?bp S limit fs (compiled_units (project_cfiles ctr)) L"
    by (simp add: project_cfiles_def)
  from selfL have paths: "buildpath (self L) = ?bp" "bin_path (self L) = bin_path st"
    "GetMD5FileName (self L) = GetMD5FileName st"
    by (simp_all add: GetMD5FileName_def)
  have objsL: "objs L = project_objects ctr"
    using build_locations_objs[OF loop] by (simp add: project_objects_def project_cfiles_def)
  have link: "link_command (getLinker ctr) (objs L) (bin_path (self L)) ldl \<in> ?A"
    unfolding objsL paths build_commands_def by simp
  from sibling paths have "bin_path (self L) \<noteq> GetMD5FileName (self L)" by simp
  from link_and_fingerprint_True[OF lf this] obtain content where
    art: "fs1 (bin_path st1) = Some (RegularFile content)" and
    key: "md5key st1 = Some (md5_hexdigest pf content)" and
    st1: "st1 = (self L)\<lparr>md5key := Some (md5_hexdigest pf content)\<rparr>"
    by blast
  from st1 selfL have st1_paths: "buildpath st1 = ?bp" "srcmd5 st1 = c" "bin_path st1 = bin_path st"
    "GetMD5FileName st1 = GetMD5FileName st"
    by (simp_all add: GetMD5FileName_def)
  from inv selfL have okL: "cache_ok ?bp S (fs_now L) c"
    and sameL: "\<forall>b \<in> S. fs_now L (path_join ?bp b) = fs (path_join ?bp b)"
    and seen: "\<forall>u \<in> compiled_units (project_cfiles ctr). u \<in> S \<and> fresh pf ?bp (fs_now L) c limit u"
    by (simp_all add: build_inv_def)
  have agree1: "\<forall>b \<in> S. fs1 (path_join ?bp b) = fs_now L (path_join ?bp b)"
    using fp paths by (intro link_and_fingerprint_agree[OF utA sameL link paths(1) _ lf]) simp
  with later have agree: "\<forall>b \<in> S. fs2 (path_join ?bp b) = fs_now L (path_join ?bp b)"
    by simp
  have matched: "\<forall>cf \<in> set (project_cfiles ctr). endswith (fst cf) ''.c'' \<longrightarrow>
              fst (check_and_update_hash_and_deps pf (buildpath st1) fs2 limit
                     (basename (fst cf)) (srcmd5 st1)) = Returned True"
  proof (intro ballI impI)
    fix cf assume "cf \<in> set (project_cfiles ctr)" "endswith (fst cf) ''.c''"
    then have "basename (fst cf) \<in> compiled_units (project_cfiles ctr)"
      unfolding compiled_units_def by blast
    with seen have bs: "basename (fst cf) \<in> S"
      and fr: "fresh pf ?bp (fs_now L) c limit (basename (fst cf))"
      by simp_all
    have "fresh pf ?bp fs2 c limit (basename (fst cf))"
      by (rule fresh_agree[OF fr bs okL agree])
    then have "check_and_update_hash_and_deps pf ?bp fs2 limit (basename (fst cf)) c = (Returned True, c)"
      by (rule fresh_check)
    then show "fst (check_and_update_hash_and_deps pf (buildpath st1) fs2 limit
                     (basename (fst cf)) (srcmd5 st1)) = Returned True"
      unfolding st1_paths by simp
  qed
  from art artifact st1_paths have art2: "fs2 (bin_path st1) = Some (RegularFile content)"
    by simp
  have "build pf ctr limit fs2 st1
          = link_and_fingerprint pf (getLinker ctr) ldl
               \<lparr>fs_now = fs2, self = st1, relink = \<not> path_exists fs2 (bin_path st1),
                obns = concat (map object_name_of (project_cfiles ctr)),
                objs = project_objects ctr, events = ?evs0\<rparr>"
    unfolding assembled_flags_build[OF af] build_objects_matched[OF matched] ..
  also have "\<dots> = (Returned True, fs2(GetMD5FileName st \<mapsto> RegularFile (md5_hexdigest pf content)),
                    st1, ?evs0)"
    using art2 key nodir st1_paths
    by (subst link_and_fingerprint_skip[where content = content]) (simp_all add: path_exists_def)
  finally show ?thesis using key by blast
qed

theorem second_build_does_nothing_witness:
  "\<exists>key. md5key example_after = Some key
     \<and> build (example_platform run_ok) (example_controller [(''/build/main.c'', '''')]) 10
          (example_fs_after(''/build/notes.txt'' \<mapsto> RegularFile ''to do'')) example_after
       = (Returned True,
          example_fs_after
            (''/build/notes.txt'' \<mapsto> RegularFile ''to do'',
             GetMD5FileName (toolchain_init (example_controller [(''/build/main.c'', '''')]))
               \<mapsto> RegularFile key),
          example_after, [])"
proof -
  let ?pf = "example_platform run_ok"
  let ?ctr = "example_controller [(''/build/main.c'', '''')]"
  let ?st = "toolchain_init ?ctr"
  let ?S = "{''main.c''}"
  let ?cc = "[''gcc'', ''-c'', ''/build/main.c'', ''-o'', ''/build/main.o'', ''-O2'', ''-fPIC'']"
  let ?ld = "[''gcc'', ''/build/main.o'', ''-o'', ''/build/plc.so'', ''-shared'']"
  have bp: "buildpath ?st = ''/build''"
    by (simp add: toolchain_init_def reset_for_def example_controller_def)
  have "fst example_build = Returned True" by code_simp
  then have first: "build ?pf ?ctr 10 example_fs ?st
             = (Returned True, example_fs_after, example_after, snd (snd (snd example_build)))"
    unfolding example_build_def example_fs_after_def example_after_def by (metis prod.collapse)
  have units: "\<forall>cf \<in> set (project_cfiles ?ctr). endswith (fst cf) ''.c'' \<longrightarrow>
                    basename (fst cf) \<in> ?S
                    \<and> path_exists example_fs (path_join (buildpath ?st) (basename (fst cf)))"
    by code_simp
  have sc: "scan_closed (buildpath ?st) ?S"
    unfolding bp
    by (simp add: scan_closed_def path_join_def append_cfile_deps_def splitlines_def
          py_linebreak_def includes_re_match_def py_isspace_def)
  have ok: "cache_ok (buildpath ?st) ?S example_fs (srcmd5 ?st)"
    by (simp add: cache_ok_def toolchain_init_def reset_for_def)
  have af: "assembled_flags ?pf ?ctr = Some ([''-fPIC''], [''-shared''])"
    by code_simp
  have pc: "project_cfiles ?ctr = [(''/build/main.c'', '''')]"
    by code_simp
  have uf: "shlex_split ?pf '''' = Some []"
    by code_simp
  have cc: "compile_command (getCompiler ?ctr) [''-fPIC''] ''/build/main.c'' [] = ?cc"
    by code_simp
  have ld: "link_command (getLinker ?ctr) (project_objects ?ctr) (bin_path ?st) [''-shared''] = ?ld"
    by code_simp
  have cmds: "build_commands ?pf ?ctr ?st [''-fPIC''] [''-shared''] \<subseteq> {?cc, ?ld}"
    unfolding build_commands_def pc using uf cc ld by auto
  have run_cc: "snd (spin ?pf ?cc fs) ''/build/main.c'' = fs ''/build/main.c''" for fs
    by (simp add: example_platform_def run_ok_def)
  have run_ld: "snd (spin ?pf ?ld fs) ''/build/main.c'' = fs ''/build/main.c''" for fs
    by (simp add: example_platform_def run_ok_def)
  have src: "path_join ''/build'' ''main.c'' = ''/build/main.c''"
    by (simp add: path_join_def)
  have "untouched ?pf (buildpath ?st) ?S example_fs (build_commands ?pf ?ctr ?st [''-fPIC''] [''-shared''])"
    unfolding untouched_def bp
  proof (intro ballI allI impI)
    fix argv fs b
    assume "argv \<in> build_commands ?pf ?ctr ?st [''-fPIC''] [''-shared'']" and "b \<in> ?S"
    with cmds have "argv = ?cc \<or> argv = ?ld" and "b = ''main.c''" by auto
    then show "snd (spin ?pf argv fs) (path_join ''/build'' b) = fs (path_join ''/build'' b)"
      using run_cc run_ld src by auto
  qed
  with af have ut: "\<forall>cfl ldl. assembled_flags ?pf ?ctr = Some (cfl, ldl) \<longrightarrow>
                 untouched ?pf (buildpath ?st) ?S example_fs (build_commands ?pf ?ctr ?st cfl ldl)"
    by simp
  have fp: "\<forall>b \<in> ?S. path_join (buildpath ?st) b \<noteq> GetMD5FileName ?st"
    unfolding bp by (simp add: GetMD5FileName_def bp path_join_def)
  have sibling: "bin_path ?st \<noteq> GetMD5FileName ?st"
    by code_simp
  let ?fs2 = "example_fs_after(''/build/notes.txt'' \<mapsto> RegularFile ''to do'')"
  have nodir: "?fs2 (GetMD5FileName ?st) \<noteq> Some Directory"
    by code_simp
  have ns: "\<not> sysroot_needed ?pf ?ctr"
    by code_simp
  have later: "\<forall>b \<in> ?S. ?fs2 (path_join (buildpath ?st) b)
                           = example_fs_after (path_join (buildpath ?st) b)"
    unfolding bp by (simp add: src)
  have "bin_path ?st = ''/build/plc.so''"
    by code_simp
  then have artifact: "?fs2 (bin_path ?st) = example_fs_after (bin_path ?st)"
    by simp
  show ?thesis
    using second_build_does_nothing[where ?fs2.0 = "?fs2", OF first units sc ok ut fp sibling later artifact nodir] ns
    by simp
qed

subsection \<open>A failing compilation of an existing unit\<close>

text \<open>
  When the file of a unit exists in the build directory, its check leaves an entry for it,
  and a failing compilation evicts this entry and no other, and ends the build with
  \<open>False\<close> before any further process is started.
\<close>

lemma check_leaves_entry:
  assumes "check_and_update_hash_and_deps pf bp fs n bn c = (Returned r, c')"
      and "path_exists fs (path_join bp bn)"
  shows "\<exists>content ds. fs (path_join bp bn) = Some (RegularFile content)
           \<and> c' bn = Some (md5_hexdigest pf content, ds)"
proof (cases n)
  case 0
  with assms show ?thesis by simp
next
  case (Suc m)
  from assms(1)[unfolded Suc] show ?thesis
  proof (cases rule: check_SucE)
    case missing
    with assms(2) show ?thesis by (simp add: path_exists_def)
  next
    case directory
    then show ?thesis by simp
  next
    case (matched content ds rr)
    from map_checks_check_rewrites[OF matched(3), where b = bn] matched(1,2)
    show ?thesis by (auto simp: rewritten_def)
  next
    case (changed content rr)
    from map_checks_check_rewrites[OF changed(3), where b = bn] changed(1)
    show ?thesis by (auto simp: rewritten_def)
  qed
qed

lemma build_cfile_failing_unit:
  assumes c: "endswith CFile ''.c''"
      and ex: "path_exists (fs_now L) (path_join (buildpath (self L)) (basename CFile))"
      and chk: "check_and_update_hash_and_deps pf (buildpath (self L)) (fs_now L) k (basename CFile)
                  (srcmd5 (self L)) = (Returned False, c1)"
      and uf: "shlex_split pf CFLAGS = Some unit_flags"
      and sp: "spin pf ([compiler, ''-c'', CFile, ''-o'', splitext_root CFile @ ''.o'', ''-O2'']
                        @ fl @ unit_flags) (fs_now L) = (status, fs1)"
      and failed: "status \<noteq> 0"
  shows "build_cfile pf compiler k fl (CFile, CFLAGS) L
           = Return False
               (L\<lparr>self := (self L)\<lparr>srcmd5 := c1(basename CFile := None)\<rparr>, fs_now := fs1,
                  relink := True,
                  events := events L @ [Spin ([compiler, ''-c'', CFile, ''-o'',
                                               splitext_root CFile @ ''.o'', ''-O2'']
                                              @ fl @ unit_flags)]\<rparr>)"
proof -
  from check_leaves_entry[OF chk ex] obtain entry where "c1 (basename CFile) = Some entry"
    by auto
  with c chk uf sp failed show ?thesis
    by (simp add: build_cfile_def Let_def set_srcmd5_def)
qed

end
